theory Spec2Isabelle
  imports Main
begin

section \<open>Time\<close>

text \<open>
  The bot reads the clock with \<^verbatim>\<open>datetime.now(timezone.utc)\<close> and stores instants with
  \<^verbatim>\<open>isoformat()\<close>, which keeps microseconds. An instant is modelled as an integer number
  of microseconds. \<^verbatim>\<open>total_seconds()\<close> of a difference is that many microseconds over
  \<open>10^6\<close>; \<^verbatim>\<open>int(...)\<close> of a positive number of seconds is the floor, written here as
  integer division by \<open>second\<close>.
\<close>

definition second :: int where
  "second = 1000000"

section \<open>Rate limiting: \<^verbatim>\<open>check_spam\<close> and \<^verbatim>\<open>is_temp_blocked\<close>\<close>

text \<open>
  One entry of \<^verbatim>\<open>self.spam_control\<close>. The key \<^verbatim>\<open>blocked_until\<close> is read with
  \<^verbatim>\<open>.get\<close> only, so a missing key and the value \<^verbatim>\<open>None\<close> are both \<open>None\<close>.
\<close>

record spam_info =
  request_count :: int
  last_request :: int
  blocked_until :: "int option"

type_synonym spam_table = "int \<rightharpoonup> spam_info"

text \<open>
  \<^verbatim>\<open>check_spam(user_id)\<close>, lines 312-348. The clock reading is the parameter \<open>now\<close>. The
  result is the updated table and the returned pair. In the branch \<open>time_diff < 2\<close> the
  value \<open>2 - time_diff\<close> is positive, so \<^verbatim>\<open>int(2 - time_diff)\<close> is its floor.
\<close>

definition check_spam :: "spam_table \<Rightarrow> int \<Rightarrow> int \<Rightarrow> spam_table \<times> bool \<times> int" where
  "check_spam sc user now =
     (case sc user of
        Some spam \<Rightarrow>
          (let time_diff = now - last_request spam in
           if time_diff < 2 * second then
             (let count = request_count spam + 1 in
              (sc(user \<mapsto> \<lparr>request_count = count, last_request = now,
                     blocked_until = (if count \<ge> 5 then Some (now + 10 * second) else None)\<rparr>),
               True,
               if count \<ge> 5 then 10 else (2 * second - time_diff) div second))
           else
             (sc(user \<mapsto> \<lparr>request_count = 1, last_request = now, blocked_until = None\<rparr>),
              False, 0))
      | None \<Rightarrow>
          (sc(user \<mapsto> \<lparr>request_count = 1, last_request = now, blocked_until = None\<rparr>),
           False, 0))"

text \<open>\<^verbatim>\<open>is_temp_blocked(user_id)\<close>, lines 350-363.\<close>

definition is_temp_blocked :: "spam_table \<Rightarrow> int \<Rightarrow> int \<Rightarrow> spam_table \<times> bool \<times> int" where
  "is_temp_blocked sc user now =
     (case sc user of
        Some spam \<Rightarrow>
          (case blocked_until spam of
             Some until \<Rightarrow>
               if now < until then (sc, True, (until - now) div second)
               else (sc(user \<mapsto> spam\<lparr>blocked_until := None, request_count := 0\<rparr>), False, 0)
           | None \<Rightarrow> (sc, False, 0))
      | None \<Rightarrow> (sc, False, 0))"

text \<open>
  What a non-admin request meets before anything else in \<^verbatim>\<open>handle_file_access\<close> (lines
  507-530) and in the \<^verbatim>\<open>redownload_\<close> and \<^verbatim>\<open>check_\<close> callbacks (lines 1141-1150,
  1194-1203): first \<^verbatim>\<open>is_temp_blocked\<close>, then \<^verbatim>\<open>check_spam\<close>. A positive
  \<^verbatim>\<open>is_temp_blocked\<close> is the lockout with its remaining seconds; a positive
  \<^verbatim>\<open>check_spam\<close> is the lockout when \<^verbatim>\<open>wait_time >= 10\<close> (line 520) and a request to wait
  otherwise. Both calls read the clock; the two readings of one request are taken as the
  same instant \<open>now\<close>.
\<close>

datatype outcome = Allowed | Throttled int | Locked int

definition spam_gate :: "spam_table \<Rightarrow> int \<Rightarrow> int \<Rightarrow> spam_table \<times> outcome" where
  "spam_gate sc user now =
     (case is_temp_blocked sc user now of
        (sc1, True, remaining) \<Rightarrow> (sc1, Locked remaining)
      | (sc1, False, _) \<Rightarrow>
          (case check_spam sc1 user now of
             (sc2, True, wait_time) \<Rightarrow>
               (sc2, if wait_time \<ge> 10 then Locked wait_time else Throttled wait_time)
           | (sc2, False, _) \<Rightarrow> (sc2, Allowed)))"

text \<open>A run of requests of one user, at the given instants, from a given table.\<close>

fun spam_run :: "spam_table \<Rightarrow> int \<Rightarrow> int list \<Rightarrow> spam_table \<times> outcome list" where
  "spam_run sc user [] = (sc, [])"
| "spam_run sc user (t # ts) =
     (case spam_gate sc user t of
        (sc1, out) \<Rightarrow> (case spam_run sc1 user ts of (sc2, outs) \<Rightarrow> (sc2, out # outs)))"

section \<open>Channel requirements and the membership cache\<close>

text \<open>
  A channel reference is a number (a chat id) or a string (\<^verbatim>\<open>@name\<close> or a link), as
  \<^verbatim>\<open>extract_channel_info\<close> produces them.
\<close>

datatype chat_ref = ChatInt int | ChatStr string

text \<open>
  One value of \<^verbatim>\<open>self.mandatory_channels\<close> (the key \<^verbatim>\<open>identifier\<close> is the field
  \<open>channel_identifier\<close>). The keys \<^verbatim>\<open>chat_id\<close>, \<^verbatim>\<open>identifier\<close>
  and \<^verbatim>\<open>invite_link\<close> may be missing; \<^verbatim>\<open>can_auto_verify\<close> is read with
  \<^verbatim>\<open>.get('can_auto_verify', False)\<close> and for its truth value only, so it is a boolean.
\<close>

record channel_info =
  channel_identifier :: "chat_ref option"
  chat_id :: "int option"
  can_auto_verify :: bool
  button_text :: string
  display :: string
  invite_link :: "string option"

text \<open>
  \<^verbatim>\<open>channel_info.get('chat_id') or channel_info.get('identifier')\<close> (lines 206, 543, 1161,
  1214): the chat id when it is there and not zero, the identifier otherwise.
\<close>

definition chat_id_or_identifier :: "channel_info \<Rightarrow> chat_ref option" where
  "chat_id_or_identifier info =
     (case chat_id info of
        Some c \<Rightarrow> if c \<noteq> 0 then Some (ChatInt c) else channel_identifier info
      | None \<Rightarrow> channel_identifier info)"

text \<open>
  The test \<^verbatim>\<open>can_auto_verify and chat_id and isinstance(chat_id, int)\<close> of lines 212 and
  228, with the chat id it lets through.
\<close>

definition auto_chat :: "channel_info \<Rightarrow> int option" where
  "auto_chat info =
     (if can_auto_verify info then
        (case chat_id_or_identifier info of
           Some (ChatInt c) \<Rightarrow> if c \<noteq> 0 then Some c else None
         | Some (ChatStr _) \<Rightarrow> None
         | None \<Rightarrow> None)
      else None)"

text \<open>Python's \<^verbatim>\<open>str\<close> of an integer.\<close>

fun str_nat :: "nat \<Rightarrow> string" where
  "str_nat n =
     (if n < 10 then [char_of (48 + n)]
      else str_nat (n div 10) @ [char_of (48 + n mod 10)])"

declare str_nat.simps [simp del]

definition str_int :: "int \<Rightarrow> string" where
  "str_int i = (if i < 0 then CHR ''-'' # str_nat (nat (- i)) else str_nat (nat i))"

text \<open>
  \<^verbatim>\<open>str(channel.get('chat_id') or channel.get('identifier'))\<close>: the key under which the
  wizards store a requirement (line 1548, and line 1584 for a detected channel) and under
  which the \<^verbatim>\<open>check_\<close> callback records a trusted membership (line 1214).
\<close>

definition channel_key :: "channel_info \<Rightarrow> string" where
  "channel_key info =
     (case chat_id_or_identifier info of
        Some (ChatInt c) \<Rightarrow> str_int c
      | Some (ChatStr s) \<Rightarrow> s
      | None \<Rightarrow> ''None'')"

text \<open>
  \<^verbatim>\<open>self.bot.get_chat_member(chat_id, user_id)\<close> is the channel gateway: it answers with a
  status string, or raises (\<open>None\<close>).
\<close>

type_synonym gateway = "int \<Rightarrow> int \<Rightarrow> string option"

definition is_joined_status :: "string \<Rightarrow> bool" where
  "is_joined_status st = (st = ''member'' \<or> st = ''administrator'' \<or> st = ''creator'')"

text \<open>The membership cache of one user: \<^verbatim>\<open>self.user_channel_memberships[user_id]\<close>.\<close>

type_synonym membership = "string \<rightharpoonup> bool"

text \<open>
  A query sent to the gateway during an evaluation: the key of the requirement it was
  sent for, and the chat asked about.
\<close>

type_synonym query = "string \<times> int"

text \<open>
  The body of the loop of \<^verbatim>\<open>check_membership\<close> (lines 204-255) for one requirement, on
  the user's cache, the list \<^verbatim>\<open>not_joined\<close> and the queries sent so far. Nothing in the
  body raises outside the two inner \<^verbatim>\<open>try\<close> blocks, so the outer handler of lines 252-255
  is never entered.
\<close>

definition check_channel ::
  "gateway \<Rightarrow> int \<Rightarrow> string \<times> channel_info \<Rightarrow>
   membership \<times> channel_info list \<times> query list \<Rightarrow>
   membership \<times> channel_info list \<times> query list" where
  "check_channel gw user entry acc =
     (case entry of (key, info) \<Rightarrow>
      case acc of (m, not_joined, asked) \<Rightarrow>
        if m key = Some True then
          (case auto_chat info of
             Some c \<Rightarrow>
               (case gw c user of
                  Some st \<Rightarrow>
                    if \<not> is_joined_status st
                    then (m(key \<mapsto> False), not_joined @ [info], asked @ [(key, c)])
                    else (m, not_joined, asked @ [(key, c)])
                | None \<Rightarrow> (m, not_joined, asked @ [(key, c)]))
           | None \<Rightarrow> (m, not_joined, asked))
        else
          (case auto_chat info of
             Some c \<Rightarrow>
               (case gw c user of
                  Some st \<Rightarrow>
                    if is_joined_status st
                    then (m(key \<mapsto> True), not_joined, asked @ [(key, c)])
                    else (m(key \<mapsto> False), not_joined @ [info], asked @ [(key, c)])
                | None \<Rightarrow>
                    (m, if m key \<noteq> Some True then not_joined @ [info] else not_joined,
                     asked @ [(key, c)]))
           | None \<Rightarrow>
               (m, if m key \<noteq> Some True then not_joined @ [info] else not_joined, asked)))"

text \<open>The loop over \<^verbatim>\<open>self.mandatory_channels.items()\<close>, in the dictionary's order.\<close>

fun check_channels ::
  "gateway \<Rightarrow> int \<Rightarrow> (string \<times> channel_info) list \<Rightarrow>
   membership \<times> channel_info list \<times> query list \<Rightarrow>
   membership \<times> channel_info list \<times> query list" where
  "check_channels gw user [] acc = acc"
| "check_channels gw user (entry # rest) acc =
     check_channels gw user rest (check_channel gw user entry acc)"

section \<open>The bot's state\<close>

record file_doc =
  file_type :: string
  telegram_file_id :: string

text \<open>
  One value of \<^verbatim>\<open>self.files\<close>; the key \<^verbatim>\<open>files\<close> is the field \<open>group_files\<close>. The
  caption is \<^verbatim>\<open>None\<close> or a string; \<^verbatim>\<open>delete_seconds\<close> is read with a default
  (line 573).
\<close>

record file_group =
  group_files :: "file_doc list"
  caption :: "string option"
  delete_seconds :: "int option"
  created_at :: int
  admin_id :: int

record download =
  file_code :: string
  user_id :: int
  downloaded_at :: int

record user_info =
  username :: string
  first_name :: string
  is_blocked :: bool
  last_seen :: int

text \<open>
  The dictionaries of \<^verbatim>\<open>TelegramBot.__init__\<close> that the modelled handlers read or write.
  \<^verbatim>\<open>self.admins\<close> is used through \<^verbatim>\<open>is_admin\<close> only, so it is the set of its keys.
  \<^verbatim>\<open>self.mandatory_channels\<close> keeps its insertion order, so it is a list of pairs.
\<close>

record bot_state =
  users :: "int \<rightharpoonup> user_info"
  admins :: "int set"
  files :: "string \<rightharpoonup> file_group"
  mandatory_channels :: "(string \<times> channel_info) list"
  spam_control :: spam_table
  downloads :: "download list"
  user_channel_memberships :: "int \<rightharpoonup> membership"

definition is_admin :: "bot_state \<Rightarrow> int \<Rightarrow> bool" where
  "is_admin s user = (user \<in> admins s)"

definition FILE_DELETE_SECONDS :: int where
  "FILE_DELETE_SECONDS = 15"

section \<open>What a handler does to the outside\<close>

text \<open>
  The texts the bot sends are Persian sentences; a message is modelled by what it says.
  The caption of a media message is the f-string of lines 580 and 582: the bundle's
  caption followed by the expiry notice with its number of seconds, or the notice alone.
\<close>

datatype media_caption = CaptionAndNotice string int | NoticeOnly int

datatype notice =
    BlockedByAdmin
  | TempBlocked int
  | SpamLocked
  | SpamWait int
  | LinkMissing
  | JoinRequired "channel_info list" string
  | NotYetMember
  | AutoVerifyFailed "channel_info list"
  | TrustWarning "channel_info list"
  | SendFailed
  | Resending
  | SendingFiles
  | FilesSent
  | Welcome
  | NoFilesFound
  | InvalidNumber
  | OutOfRange
  | LinkCreated string string
  | AdminsOnly
  | FileDeleted string
  | FileNotFound

text \<open>
  \<open>Reply\<close> is a message, an alert or an edit shown to the user of the request;
  \<open>AskGateway\<close> a membership query, with the requirement's key and the chat;
  \<open>SendMedia\<close> a photo or video that was sent, with its type, the chat, the file, the
  caption argument and the id of the sent message; \<open>SendMessage\<close> a text sent to a chat;
  \<open>CreateTask\<close> the \<^verbatim>\<open>asyncio.create_task\<close> of the deletion coroutine with its arguments
  (chat, message ids, delay, file code).
\<close>

datatype effect =
    Reply notice
  | AskGateway string int
  | SendMedia string int string "media_caption option" int
  | SendMessage int notice
  | CreateTask int "int list" int string

section \<open>Membership evaluation: \<^verbatim>\<open>check_membership\<close>\<close>

text \<open>
  \<^verbatim>\<open>check_membership(user_id)\<close>, lines 193-257: the new state, the pair it returns and the
  gateway queries it sent.
\<close>

definition check_membership ::
  "bot_state \<Rightarrow> gateway \<Rightarrow> int \<Rightarrow> bot_state \<times> bool \<times> channel_info list \<times> query list" where
  "check_membership s gw user =
     (if mandatory_channels s = [] then (s, True, [], [])
      else
        (let m0 = (case user_channel_memberships s user of Some m \<Rightarrow> m | None \<Rightarrow> Map.empty) in
         case check_channels gw user (mandatory_channels s) (m0, [], []) of
           (m, not_joined, asked) \<Rightarrow>
             (s\<lparr>user_channel_memberships := (user_channel_memberships s)(user \<mapsto> m)\<rparr>,
              not_joined = [], not_joined, asked)))"

text \<open>\<^verbatim>\<open>mark_user_joined_channel(user_id, channel_key)\<close>, lines 259-264.\<close>

definition mark_user_joined_channel :: "bot_state \<Rightarrow> int \<Rightarrow> string \<Rightarrow> bot_state" where
  "mark_user_joined_channel s user key =
     (let m0 = (case user_channel_memberships s user of Some m \<Rightarrow> m | None \<Rightarrow> Map.empty) in
      s\<lparr>user_channel_memberships := (user_channel_memberships s)(user \<mapsto> m0(key \<mapsto> True))\<rparr>)"

section \<open>Delivery: \<^verbatim>\<open>send_files_to_user\<close> and the deletion task\<close>

text \<open>
  \<^verbatim>\<open>self.bot.send_photo\<close> and \<^verbatim>\<open>self.bot.send_video\<close> are the transport: the send of the
  item at position \<open>idx\<close> of a delivery returns a message with an id, or raises (\<open>None\<close>).
\<close>

type_synonym transport = "nat \<Rightarrow> int option"

definition truthy :: "string option \<Rightarrow> bool" where
  "truthy t = (case t of Some x \<Rightarrow> x \<noteq> [] | None \<Rightarrow> False)"

text \<open>Lines 579-582, and the \<^verbatim>\<open>caption=\<close> argument of lines 590 and 596.\<close>

definition full_caption :: "string option \<Rightarrow> int \<Rightarrow> nat \<Rightarrow> media_caption" where
  "full_caption caption_text secs idx =
     (case caption_text of
        Some t \<Rightarrow> if idx = 0 \<and> t \<noteq> [] then CaptionAndNotice t secs else NoticeOnly secs
      | None \<Rightarrow> NoticeOnly secs)"

definition caption_arg :: "string option \<Rightarrow> int \<Rightarrow> nat \<Rightarrow> media_caption option" where
  "caption_arg caption_text secs idx =
     (if idx = 0 \<or> \<not> truthy caption_text then Some (full_caption caption_text secs idx)
      else None)"

text \<open>
  The loop of lines 577-600 from position \<open>idx\<close> on: the media sent, the ids collected in
  \<^verbatim>\<open>sent_message_ids\<close>, and whether a send raised (which leaves the loop and the
  \<^verbatim>\<open>try\<close> block). An item that is neither a photo nor a video is passed over.
\<close>

fun send_loop ::
  "transport \<Rightarrow> int \<Rightarrow> string option \<Rightarrow> int \<Rightarrow> nat \<Rightarrow> file_doc list \<Rightarrow>
   effect list \<times> int list \<times> bool" where
  "send_loop tr user caption_text secs idx [] = ([], [], False)"
| "send_loop tr user caption_text secs idx (f # fs) =
     (if file_type f = ''photo'' \<or> file_type f = ''video'' then
        (case tr idx of
           None \<Rightarrow> ([], [], True)
         | Some mid \<Rightarrow>
             (case send_loop tr user caption_text secs (Suc idx) fs of
                (sent, ids, raised) \<Rightarrow>
                  (SendMedia (file_type f) user (telegram_file_id f)
                     (caption_arg caption_text secs idx) mid # sent,
                   mid # ids, raised)))
      else send_loop tr user caption_text secs (Suc idx) fs)"

text \<open>\<^verbatim>\<open>file_group.get('delete_seconds', FILE_DELETE_SECONDS)\<close>, line 573.\<close>

definition bundle_seconds :: "file_group \<Rightarrow> int" where
  "bundle_seconds fg = (case delete_seconds fg of Some d \<Rightarrow> d | None \<Rightarrow> FILE_DELETE_SECONDS)"

text \<open>\<^verbatim>\<open>send_files_to_user(user_id, file_group, file_code)\<close>, lines 568-626.\<close>

definition send_files_to_user ::
  "bot_state \<Rightarrow> transport \<Rightarrow> int \<Rightarrow> int \<Rightarrow> file_group \<Rightarrow> string \<Rightarrow> bot_state \<times> effect list" where
  "send_files_to_user s tr now user fg code =
     (let caption_text = caption fg;
          secs = bundle_seconds fg
      in case send_loop tr user caption_text secs 0 (group_files fg) of
           (sent, ids, raised) \<Rightarrow>
             if raised then (s, sent @ [SendMessage user SendFailed])
             else
               (s\<lparr>downloads := downloads s @
                    [\<lparr>file_code = code, user_id = user, downloaded_at = now\<rparr>]\<rparr>,
                sent @ (if ids \<noteq> [] then [CreateTask user ids secs code] else [])))"

text \<open>
  \<^verbatim>\<open>schedule_message_deletion_and_send_buttons\<close>, lines 286-310, as the task runs it.
  \<^verbatim>\<open>asyncio.sleep(delay_seconds)\<close> gives control back no earlier than the delay after the
  task started: at \<open>started + delay + late\<close> for some lateness \<open>late \<ge> 0\<close>. The result is
  that instant and the calls the coroutine makes from then on, in order: one
  \<^verbatim>\<open>delete_message\<close> per id (a failing one is caught at line 296 and the loop goes on), then
  one \<^verbatim>\<open>send_message\<close> with the re-download button when \<^verbatim>\<open>file_code\<close> is not empty.
\<close>

datatype task_call = DeleteMessage int int | SendPrompt int "string option"

definition schedule_message_deletion_and_send_buttons ::
  "int \<Rightarrow> nat \<Rightarrow> int \<Rightarrow> int list \<Rightarrow> int \<Rightarrow> string \<Rightarrow> int \<times> task_call list" where
  "schedule_message_deletion_and_send_buttons started late chat message_ids delay_seconds code =
     (started + max 0 delay_seconds * second + int late,
      map (DeleteMessage chat) message_ids @
      [SendPrompt chat (if code \<noteq> [] then Some code else None)])"

section \<open>The handlers that deliver a bundle\<close>

text \<open>
  The spam checks at the start of \<^verbatim>\<open>handle_file_access\<close> (lines 507-530) and of the
  \<^verbatim>\<open>redownload_\<close> and \<^verbatim>\<open>check_\<close> callbacks (lines 1141-1150, 1194-1203), which admins
  skip: a positive \<^verbatim>\<open>is_temp_blocked\<close> with the remaining seconds, a positive
  \<^verbatim>\<open>check_spam\<close> with the waiting time, or neither. Both calls read the clock; the two
  readings of one request are taken as the same instant.
\<close>

datatype spam_check = Passed | TempBlock int | Spam int

definition spam_checks :: "bot_state \<Rightarrow> int \<Rightarrow> int \<Rightarrow> bot_state \<times> spam_check" where
  "spam_checks s user now =
     (if is_admin s user then (s, Passed)
      else
        (case is_temp_blocked (spam_control s) user now of
           (sc1, True, remaining) \<Rightarrow> (s\<lparr>spam_control := sc1\<rparr>, TempBlock remaining)
         | (sc1, False, _) \<Rightarrow>
             (case check_spam sc1 user now of
                (sc2, True, wait_time) \<Rightarrow> (s\<lparr>spam_control := sc2\<rparr>, Spam wait_time)
              | (sc2, False, _) \<Rightarrow> (s\<lparr>spam_control := sc2\<rparr>, Passed))))"

text \<open>
  The same checks with their result as an \<open>outcome\<close> of the rate limiter: the state they
  leave and whether the request is let through.
\<close>

definition request_gate :: "bot_state \<Rightarrow> int \<Rightarrow> int \<Rightarrow> bot_state \<times> outcome" where
  "request_gate s user now =
     (if is_admin s user then (s, Allowed)
      else (case spam_gate (spam_control s) user now of
              (sc, out) \<Rightarrow> (s\<lparr>spam_control := sc\<rparr>, out)))"

definition asks :: "query list \<Rightarrow> effect list" where
  "asks qs = map (\<lambda>q. AskGateway (fst q) (snd q)) qs"

text \<open>
  \<^verbatim>\<open>handle_file_access(update, context, file_code)\<close>, lines 502-566. A positive
  \<^verbatim>\<open>check_spam\<close> is answered with the lockout text when \<^verbatim>\<open>wait_time >= 10\<close> (line 520) and
  with the request to wait otherwise.
\<close>

definition handle_file_access ::
  "bot_state \<Rightarrow> gateway \<Rightarrow> transport \<Rightarrow> int \<Rightarrow> int \<Rightarrow> string \<Rightarrow> bot_state \<times> effect list" where
  "handle_file_access s gw tr now user code =
     (case spam_checks s user now of
        (s1, TempBlock remaining) \<Rightarrow> (s1, [Reply (TempBlocked remaining)])
      | (s1, Spam wait_time) \<Rightarrow>
          (s1, [Reply (if wait_time \<ge> 10 then SpamLocked else SpamWait wait_time)])
      | (s1, Passed) \<Rightarrow>
          (case files s1 code of
             None \<Rightarrow> (s1, [Reply LinkMissing])
           | Some fg \<Rightarrow>
               (case check_membership s1 gw user of
                  (s2, is_member, not_joined, asked) \<Rightarrow>
                    if \<not> is_member then (s2, asks asked @ [Reply (JoinRequired not_joined code)])
                    else (case send_files_to_user s2 tr now user fg code of
                            (s3, sent) \<Rightarrow> (s3, asks asked @ sent)))))"

text \<open>
  The user of an update, as \<^verbatim>\<open>update.effective_user\<close> gives it, and
  \<^verbatim>\<open>start_command(update, context)\<close>, lines 439-500, with \<^verbatim>\<open>context.args\<close>.
\<close>

record telegram_user =
  tg_id :: int
  tg_username :: "string option"
  tg_first_name :: "string option"

definition or_unknown :: "string option \<Rightarrow> string" where
  "or_unknown t = (case t of Some x \<Rightarrow> if x \<noteq> [] then x else ''unknown'' | None \<Rightarrow> ''unknown'')"

definition start_command ::
  "bot_state \<Rightarrow> gateway \<Rightarrow> transport \<Rightarrow> int \<Rightarrow> telegram_user \<Rightarrow> string list \<Rightarrow>
   bot_state \<times> effect list" where
  "start_command s gw tr now user args =
     (if (case users s (tg_id user) of Some u \<Rightarrow> is_blocked u | None \<Rightarrow> False)
      then (s, [Reply BlockedByAdmin])
      else
        (let s1 = s\<lparr>users := (users s)(tg_id user \<mapsto>
                    \<lparr>username = or_unknown (tg_username user),
                     first_name = or_unknown (tg_first_name user),
                     is_blocked = False, last_seen = now\<rparr>)\<rparr>
         in case args of
              code # _ \<Rightarrow> handle_file_access s1 gw tr now (tg_id user) code
            | [] \<Rightarrow> (s1, [Reply Welcome])))"

text \<open>
  The branch \<^verbatim>\<open>data.startswith("redownload_")\<close> of \<^verbatim>\<open>button_callback\<close>, lines 1137-1188,
  with the file code already taken out of the callback data. Here and in the \<^verbatim>\<open>check_\<close>
  branch every positive \<^verbatim>\<open>check_spam\<close> is answered with the request to wait (lines 1149
  and 1202).
\<close>

definition button_redownload ::
  "bot_state \<Rightarrow> gateway \<Rightarrow> transport \<Rightarrow> int \<Rightarrow> int \<Rightarrow> string \<Rightarrow> bot_state \<times> effect list" where
  "button_redownload s gw tr now user code =
     (case spam_checks s user now of
        (s1, TempBlock remaining) \<Rightarrow> (s1, [Reply (TempBlocked remaining)])
      | (s1, Spam wait_time) \<Rightarrow> (s1, [Reply (SpamWait wait_time)])
      | (s1, Passed) \<Rightarrow>
          (case check_membership s1 gw user of
             (s2, is_member, not_joined, asked) \<Rightarrow>
               if \<not> is_member
               then (s2, asks asked @ [Reply NotYetMember, Reply (JoinRequired not_joined code)])
               else
                 (case files s2 code of
                    None \<Rightarrow> (s2, asks asked @ [Reply LinkMissing])
                  | Some fg \<Rightarrow>
                      (case send_files_to_user s2 tr now user fg code of
                         (s3, sent) \<Rightarrow> (s3, asks asked @ sent @ [Reply Resending])))))"

text \<open>
  The loop of lines 1213-1222 over \<^verbatim>\<open>not_joined_channels\<close>: the state after the trust
  markings, \<^verbatim>\<open>auto_verify_failed\<close> and \<^verbatim>\<open>trust_based_channels\<close>.
\<close>

fun split_not_joined ::
  "bot_state \<Rightarrow> int \<Rightarrow> channel_info list \<Rightarrow> bot_state \<times> channel_info list \<times> channel_info list" where
  "split_not_joined s user [] = (s, [], [])"
| "split_not_joined s user (channel # rest) =
     (if can_auto_verify channel then
        (case split_not_joined s user rest of
           (s1, auto_verify_failed, trust_based) \<Rightarrow>
             (s1, channel # auto_verify_failed, trust_based))
      else
        (case split_not_joined (mark_user_joined_channel s user (channel_key channel)) user rest of
           (s1, auto_verify_failed, trust_based) \<Rightarrow>
             (s1, auto_verify_failed, channel # trust_based)))"

text \<open>
  The end of the \<^verbatim>\<open>check_\<close> branch, lines 1248-1262: the bundle is looked up and sent.
\<close>

definition check_deliver ::
  "bot_state \<Rightarrow> transport \<Rightarrow> int \<Rightarrow> int \<Rightarrow> string \<Rightarrow> effect list \<Rightarrow> bot_state \<times> effect list" where
  "check_deliver s tr now user code before =
     (case files s code of
        None \<Rightarrow> (s, before @ [Reply LinkMissing])
      | Some fg \<Rightarrow>
          (case send_files_to_user s tr now user fg code of
             (s1, sent) \<Rightarrow> (s1, before @ sent @ [Reply SendingFiles, Reply FilesSent])))"

text \<open>
  The branch \<^verbatim>\<open>data.startswith("check_")\<close> of \<^verbatim>\<open>button_callback\<close> (the button
  \<^emph>\<open>I joined\<close>), lines 1190-1262.
\<close>

definition button_check ::
  "bot_state \<Rightarrow> gateway \<Rightarrow> transport \<Rightarrow> int \<Rightarrow> int \<Rightarrow> string \<Rightarrow> bot_state \<times> effect list" where
  "button_check s gw tr now user code =
     (case spam_checks s user now of
        (s1, TempBlock remaining) \<Rightarrow> (s1, [Reply (TempBlocked remaining)])
      | (s1, Spam wait_time) \<Rightarrow> (s1, [Reply (SpamWait wait_time)])
      | (s1, Passed) \<Rightarrow>
          (case check_membership s1 gw user of
             (s2, is_member, not_joined, asked) \<Rightarrow>
               if not_joined \<noteq> [] then
                 (case split_not_joined s2 user not_joined of
                    (s3, auto_verify_failed, trust_based) \<Rightarrow>
                      if auto_verify_failed \<noteq> []
                      then (s3, asks asked @ [Reply (AutoVerifyFailed auto_verify_failed)])
                      else check_deliver s3 tr now user code
                             (asks asked @
                              (if trust_based \<noteq> [] then [Reply (TrustWarning trust_based)] else [])))
               else check_deliver s2 tr now user code (asks asked)))"

text \<open>The branch \<^verbatim>\<open>data.startswith("delfile_")\<close> of \<^verbatim>\<open>button_callback\<close>, lines 957-997.\<close>

definition button_delfile :: "bot_state \<Rightarrow> int \<Rightarrow> string \<Rightarrow> bot_state \<times> effect list" where
  "button_delfile s user code =
     (if \<not> is_admin s user then (s, [Reply AdminsOnly])
      else (case files s code of
              Some _ \<Rightarrow> (s\<lparr>files := (files s)(code := None)\<rparr>, [Reply (FileDeleted code)])
            | None \<Rightarrow> (s, [Reply FileNotFound])))"

text \<open>Whether a handler's effects put media of a bundle into a chat.\<close>

fun delivers_to :: "int \<Rightarrow> effect \<Rightarrow> bool" where
  "delivers_to user (SendMedia _ chat _ _ _) = (chat = user)"
| "delivers_to user _ = False"

section \<open>The upload wizard's last step\<close>

text \<open>
  \<^verbatim>\<open>int(text)\<close>. A text is a list of code points below 256. Blanks around the number
  are dropped: the ASCII blanks of C (code points 9 to 13 and 32) and the two blanks above
  127 (133 and 160), which \<^verbatim>\<open>int\<close> turns into spaces first; the separators 28 to 31 are
  kept, so a text with one of them is refused. One sign may come first, and the digits
  \<open>0\<close> to \<open>9\<close> may be grouped by single underscores. Anything else raises
  \<^verbatim>\<open>ValueError\<close> (\<open>None\<close>). Code points from 256 on, among them the digits of other
  scripts that \<^verbatim>\<open>int\<close> reads too, are outside the model. A Telegram text has at most
  4096 characters, fewer than the 4300 digits from which \<^verbatim>\<open>int\<close> refuses a text for its
  length.
\<close>

definition py_isspace :: "char \<Rightarrow> bool" where
  "py_isspace c = ((9 \<le> (of_char c :: nat) \<and> (of_char c :: nat) \<le> 13) \<or>
                   (of_char c :: nat) = 32 \<or> (of_char c :: nat) = 133 \<or>
                   (of_char c :: nat) = 160)"

definition py_isdigit :: "char \<Rightarrow> bool" where
  "py_isdigit c = (48 \<le> (of_char c :: nat) \<and> (of_char c :: nat) \<le> 57)"

definition digit_value :: "char \<Rightarrow> nat" where
  "digit_value c = of_char c - 48"

fun py_digits :: "nat \<Rightarrow> string \<Rightarrow> nat option" where
  "py_digits acc [] = Some acc"
| "py_digits acc [c] = (if py_isdigit c then Some (10 * acc + digit_value c) else None)"
| "py_digits acc (c # d # cs) =
     (if py_isdigit c then py_digits (10 * acc + digit_value c) (d # cs)
      else if c = CHR ''_'' \<and> py_isdigit d then py_digits (10 * acc + digit_value d) cs
      else None)"

definition py_strip :: "string \<Rightarrow> string" where
  "py_strip t = rev (dropWhile py_isspace (rev (dropWhile py_isspace t)))"

definition py_unsigned :: "string \<Rightarrow> nat option" where
  "py_unsigned t =
     (case t of
        [] \<Rightarrow> None
      | c # cs \<Rightarrow> if py_isdigit c then py_digits (digit_value c) cs else None)"

definition py_int :: "string \<Rightarrow> int option" where
  "py_int t =
     (case py_strip t of
        [] \<Rightarrow> None
      | c # cs \<Rightarrow>
          if c = CHR ''-'' then map_option (\<lambda>n. - int n) (py_unsigned cs)
          else if c = CHR ''+'' then map_option int (py_unsigned cs)
          else map_option int (py_unsigned (c # cs)))"

text \<open>
  The keys of \<^verbatim>\<open>context.user_data\<close> that the upload wizard uses. \<^verbatim>\<open>caption\<close> (the field
  \<open>pending_caption\<close>) is read with \<^verbatim>\<open>.get\<close>, so a missing key and \<^verbatim>\<open>None\<close> are both
  \<open>None\<close>. \<^verbatim>\<open>context.user_data.clear()\<close> gives \<open>no_user_data\<close>.
\<close>

record user_data =
  awaiting :: "string option"
  temp_files :: "file_doc list option"
  pending_caption :: "string option"

definition no_user_data :: user_data where
  "no_user_data = \<lparr>awaiting = None, temp_files = None, pending_caption = None\<rparr>"

text \<open>
  The branch \<^verbatim>\<open>awaiting == 'delete_time'\<close> of \<^verbatim>\<open>handle_text\<close>, lines 1455-1496. \<open>token\<close>
  is what \<^verbatim>\<open>secrets.token_urlsafe(6)\<close> returns at line 1471. \<open>me\<close> is the bot's name from
  \<^verbatim>\<open>get_me()\<close> at line 1482, or \<open>None\<close> when that call raises: the handler then ends
  after the bundle was stored, before the reply and before \<^verbatim>\<open>user_data.clear()\<close>. A text
  reaches this branch when it is not a reply handled by \<^verbatim>\<open>handle_admin_reply\<close> and not
  one of the keyboard's button labels.
\<close>

definition handle_text_delete_time ::
  "bot_state \<Rightarrow> user_data \<Rightarrow> int \<Rightarrow> int \<Rightarrow> string \<Rightarrow> string \<Rightarrow> string option \<Rightarrow>
   bot_state \<times> user_data \<times> effect list" where
  "handle_text_delete_time s ud now user text token me =
     (case temp_files ud of
        None \<Rightarrow> (s, no_user_data, [Reply NoFilesFound])
      | Some [] \<Rightarrow> (s, no_user_data, [Reply NoFilesFound])
      | Some (f # fs) \<Rightarrow>
          (case py_int text of
             None \<Rightarrow> (s, ud, [Reply InvalidNumber])
           | Some secs \<Rightarrow>
               if secs < 5 \<or> secs > 30 then (s, ud, [Reply OutOfRange])
               else
                 (let s1 = s\<lparr>files := (files s)(token \<mapsto>
                             \<lparr>group_files = f # fs, caption = pending_caption ud,
                              delete_seconds = Some secs, created_at = now, admin_id = user\<rparr>)\<rparr>
                  in case me of
                       None \<Rightarrow> (s1, ud, [])
                     | Some bot_username \<Rightarrow>
                         (s1, no_user_data, [Reply (LinkCreated bot_username token)]))))"

text \<open>
  \<^verbatim>\<open>handle_text\<close> for a text that reaches the dispatch on \<^verbatim>\<open>awaiting\<close> at line 1399. Only
  the branch of the upload wizard's last step is modelled; in any other step the result
  is \<open>None\<close>.
\<close>

definition handle_text ::
  "bot_state \<Rightarrow> user_data \<Rightarrow> int \<Rightarrow> int \<Rightarrow> string \<Rightarrow> string \<Rightarrow> string option \<Rightarrow>
   (bot_state \<times> user_data \<times> effect list) option" where
  "handle_text s ud now user text token me =
     (if awaiting ud = Some ''delete_time''
      then Some (handle_text_delete_time s ud now user text token me)
      else None)"

section \<open>The registry's invariant, and examples\<close>

text \<open>
  \<^verbatim>\<open>self.user_channel_memberships[user_id].get(channel_key)\<close>, for a user who may have no
  cache yet.
\<close>

definition membership_record :: "bot_state \<Rightarrow> int \<Rightarrow> string \<Rightarrow> bool option" where
  "membership_record s user key =
     (case user_channel_memberships s user of Some m \<Rightarrow> m key | None \<Rightarrow> None)"

text \<open>
  What both wizards keep of \<^verbatim>\<open>self.mandatory_channels\<close>: it is a dictionary, so its keys
  are distinct, and a requirement is stored under \<open>channel_key\<close> of its own value (lines
  1548-1549 and 1584-1585).
\<close>

definition registered :: "(string \<times> channel_info) list \<Rightarrow> bool" where
  "registered chans =
     (distinct (map fst chans) \<and> list_all (\<lambda>e. fst e = channel_key (snd e)) chans)"

text \<open>The state that \<^verbatim>\<open>TelegramBot.__init__\<close> builds, for a given \<^verbatim>\<open>MAIN_ADMIN_ID\<close>.\<close>

definition initial_state :: "int \<Rightarrow> bot_state" where
  "initial_state main_admin =
     \<lparr>users = Map.empty, admins = {main_admin}, files = Map.empty, mandatory_channels = [],
      spam_control = Map.empty, downloads = [], user_channel_memberships = Map.empty\<rparr>"

text \<open>
  A requirement on a channel where the bot is an administrator, as the wizard stores it
  under the key \<open>''-1001''\<close>, and one on a private link, stored under the link.
\<close>

definition auto_channel :: channel_info where
  "auto_channel =
     \<lparr>channel_identifier = Some (ChatStr ''@news''), chat_id = Some (- 1001),
      can_auto_verify = True, button_text = ''News'', display = ''@news'',
      invite_link = None\<rparr>"

definition trust_channel :: channel_info where
  "trust_channel =
     \<lparr>channel_identifier = Some (ChatStr ''https://t.me/+AbC''), chat_id = None,
      can_auto_verify = False, button_text = ''Club'', display = ''https://t.me/+AbC'',
      invite_link = None\<rparr>"

definition failing_gateway :: gateway where
  "failing_gateway chat user = None"

definition photo :: "string \<Rightarrow> file_doc" where
  "photo fid = \<lparr>file_type = ''photo'', telegram_file_id = fid\<rparr>"

text \<open>
  Membership evaluations of one user, one after the other, each against the gateway as
  it answers at that time: the answers of \<^verbatim>\<open>check_membership\<close>, with the queries sent.
\<close>

fun evaluations ::
  "bot_state \<Rightarrow> int \<Rightarrow> gateway list \<Rightarrow> (bool \<times> channel_info list \<times> query list) list" where
  "evaluations s user [] = []"
| "evaluations s user (gw # gws) =
     (case check_membership s gw user of (s1, answer) \<Rightarrow> answer # evaluations s1 user gws)"


text \<open>
  A bot with one bundle under the code \<open>''abc''\<close> and both requirements registered.
\<close>

definition gated_state :: bot_state where
  "gated_state =
     (initial_state 1)
       \<lparr>files := [''abc'' \<mapsto> \<lparr>group_files = [photo ''F1''], caption = None,
                              delete_seconds = Some 5, created_at = 0, admin_id = 1\<rparr>],
        mandatory_channels := [(''-1001'', auto_channel), (''https://t.me/+AbC'', trust_channel)]\<rparr>"


text \<open>
  The items of a bundle that a delivery sends, with their positions: the photos and
  videos, up to the first send that raises.
\<close>

definition is_media :: "file_doc \<Rightarrow> bool" where
  "is_media f = (file_type f = ''photo'' \<or> file_type f = ''video'')"

definition sendable :: "transport \<Rightarrow> nat \<Rightarrow> file_doc list \<Rightarrow> (nat \<times> file_doc) list" where
  "sendable tr idx fs =
     takeWhile (\<lambda>p. tr (fst p) \<noteq> None) (filter (\<lambda>p. is_media (snd p)) (enumerate idx fs))"

text \<open>A bundle with a delay of 5 seconds, and a user whom an admin has blocked.\<close>

definition bundle_of :: "file_doc list \<Rightarrow> string option \<Rightarrow> file_group" where
  "bundle_of fs caption_text =
     \<lparr>group_files = fs, caption = caption_text, delete_seconds = Some 5, created_at = 0, admin_id = 1\<rparr>"

definition blocked_state :: bot_state where
  "blocked_state =
     (initial_state 1)
       \<lparr>users := [7 \<mapsto> \<lparr>username = ''u'', first_name = ''U'', is_blocked = True,
                          last_seen = 0\<rparr>],
        files := [''abc'' \<mapsto> bundle_of [photo ''F1''] None]\<rparr>"

text \<open>
  The texts that can stand for a number at all: they have a digit, and nothing but digits,
  underscores, signs and blanks.
\<close>

definition numeric_char :: "char \<Rightarrow> bool" where
  "numeric_char c =
     (py_isdigit c \<or> c = CHR ''_'' \<or> c = CHR ''+'' \<or> c = CHR ''-'' \<or> py_isspace c)"

definition numeric_text :: "string \<Rightarrow> bool" where
  "numeric_text t = (list_ex py_isdigit t \<and> list_all numeric_char t)"

text \<open>A bot with one bundle under the code \<open>''abc''\<close> and the trust requirement only.\<close>

definition trust_gated_state :: bot_state where
  "trust_gated_state =
     (initial_state 1)
       \<lparr>files := [''abc'' \<mapsto> bundle_of [photo ''F1''] None],
        mandatory_channels := [(''https://t.me/+AbC'', trust_channel)]\<rparr>"

section \<open>Properties of the rate limiter\<close>

lemma burst_run:
  "spam_run Map.empty user [0, 500000, 1000000, 1500000, 2000000] =
     (Map.empty(user \<mapsto>
        \<lparr>request_count = 5, last_request = 2000000, blocked_until = Some 12000000\<rparr>),
      [Allowed, Throttled 1, Throttled 1, Throttled 1, Locked 10])"
  by (simp add: spam_gate_def is_temp_blocked_def check_spam_def second_def Let_def)

lemma burst_run_from:
  assumes "case sc user of
             None \<Rightarrow> True
           | Some spam \<Rightarrow>
               last_request spam + 2 * second \<le> t \<and>
               (case blocked_until spam of None \<Rightarrow> True | Some until \<Rightarrow> until \<le> t)"
  shows "spam_run sc user [t, t + 500000, t + 1000000, t + 1500000, t + 2000000] =
     (sc(user \<mapsto>
        \<lparr>request_count = 5, last_request = t + 2000000, blocked_until = Some (t + 12000000)\<rparr>),
      [Allowed, Throttled 1, Throttled 1, Throttled 1, Locked 10])"
  using assms
  by (auto simp add: spam_gate_def is_temp_blocked_def check_spam_def second_def Let_def
      split: option.splits)

lemma locked_while_blocked:
  assumes "sc user = Some spam" "blocked_until spam = Some until" "now < until"
  shows "spam_gate sc user now = (sc, Locked ((until - now) div second))"
  using assms by (simp add: spam_gate_def is_temp_blocked_def)

lemma throttled_gate:
  assumes "sc user = Some spam"
    and "case blocked_until spam of
           None \<Rightarrow> request_count spam + 1 < 5
         | Some until \<Rightarrow> until \<le> now"
    and "last_request spam \<le> now" "now - last_request spam < 2 * second"
  shows "snd (spam_gate sc user now) =
           Throttled ((2 * second - (now - last_request spam)) div second)"
  using assms
  by (auto simp add: spam_gate_def is_temp_blocked_def check_spam_def Let_def second_def
      split: option.splits)

text \<open>
  Claim C7. A user with no earlier request who asks at 0, 0.5, 1.0, 1.5 and 2.0 seconds is
  let through once, told to wait three times, and locked for 10 seconds at the fifth
  request; the lockout then ends at 12 seconds. The same holds from any instant \<open>t\<close>
  on, for a user whose recorded last request is at least 2 seconds old and who has no
  pending lockout. While any lockout is pending, a request
  is answered \<open>Locked\<close> with the remaining whole seconds and changes nothing, so of two
  such requests the later one never has more time remaining. A request that meets no
  pending lockout, comes less than 2 seconds after the recorded last request, and whose
  count after the increment is below 5 is answered \<open>Throttled\<close> with \<open>2 - elapsed\<close>
  rounded down (an expired lockout puts the count back to 0 first).
\<close>

theorem rate_limit_burst:
  "snd (spam_run Map.empty user [0, 500000, 1000000, 1500000, 2000000]) =
     [Allowed, Throttled 1, Throttled 1, Throttled 1, Locked 10] \<and>
   fst (spam_run Map.empty user [0, 500000, 1000000, 1500000, 2000000]) user =
     Some \<lparr>request_count = 5, last_request = 2000000, blocked_until = Some 12000000\<rparr> \<and>
   (\<forall>sc t.
      (case sc user of
         None \<Rightarrow> True
       | Some spam \<Rightarrow>
           last_request spam + 2 * second \<le> t \<and>
           (case blocked_until spam of None \<Rightarrow> True | Some until \<Rightarrow> until \<le> t)) \<longrightarrow>
      spam_run sc user [t, t + 500000, t + 1000000, t + 1500000, t + 2000000] =
        (sc(user \<mapsto> \<lparr>request_count = 5, last_request = t + 2000000,
                       blocked_until = Some (t + 12000000)\<rparr>),
         [Allowed, Throttled 1, Throttled 1, Throttled 1, Locked 10])) \<and>
   (\<forall>sc spam until t1 t2.
      sc user = Some spam \<and> blocked_until spam = Some until \<and> t1 \<le> t2 \<and> t2 < until \<longrightarrow>
      spam_gate sc user t1 = (sc, Locked ((until - t1) div second)) \<and>
      spam_gate sc user t2 = (sc, Locked ((until - t2) div second)) \<and>
      (until - t2) div second \<le> (until - t1) div second) \<and>
   (\<forall>sc spam now.
      sc user = Some spam \<and>
      (case blocked_until spam of
         None \<Rightarrow> request_count spam + 1 < 5
       | Some until \<Rightarrow> until \<le> now) \<and>
      last_request spam \<le> now \<and> now - last_request spam < 2 * second \<longrightarrow>
      snd (spam_gate sc user now) =
        Throttled ((2 * second - (now - last_request spam)) div second))"
proof (intro conjI allI impI)
  show "snd (spam_run Map.empty user [0, 500000, 1000000, 1500000, 2000000]) =
     [Allowed, Throttled 1, Throttled 1, Throttled 1, Locked 10]"
    unfolding burst_run by simp
  show "fst (spam_run Map.empty user [0, 500000, 1000000, 1500000, 2000000]) user =
     Some \<lparr>request_count = 5, last_request = 2000000, blocked_until = Some 12000000\<rparr>"
    unfolding burst_run by simp
next
  fix sc :: spam_table and t :: int
  assume "case sc user of
         None \<Rightarrow> True
       | Some spam \<Rightarrow>
           last_request spam + 2 * second \<le> t \<and>
           (case blocked_until spam of None \<Rightarrow> True | Some until \<Rightarrow> until \<le> t)"
  then show "spam_run sc user [t, t + 500000, t + 1000000, t + 1500000, t + 2000000] =
        (sc(user \<mapsto> \<lparr>request_count = 5, last_request = t + 2000000,
                       blocked_until = Some (t + 12000000)\<rparr>),
         [Allowed, Throttled 1, Throttled 1, Throttled 1, Locked 10])"
    by (rule burst_run_from)
next
  fix sc :: spam_table and spam :: spam_info and until t1 t2 :: int
  assume h: "sc user = Some spam \<and> blocked_until spam = Some until \<and> t1 \<le> t2 \<and> t2 < until"
  then show "spam_gate sc user t1 = (sc, Locked ((until - t1) div second))"
    by (intro locked_while_blocked [where spam = spam]) auto
  from h show "spam_gate sc user t2 = (sc, Locked ((until - t2) div second))"
    by (intro locked_while_blocked [where spam = spam]) auto
  from h have "until - t2 \<le> until - t1" by simp
  then show "(until - t2) div second \<le> (until - t1) div second"
    by (simp add: second_def zdiv_mono1)
next
  fix sc :: spam_table and spam :: spam_info and now :: int
  assume "sc user = Some spam \<and>
      (case blocked_until spam of
         None \<Rightarrow> request_count spam + 1 < 5
       | Some until \<Rightarrow> until \<le> now) \<and>
      last_request spam \<le> now \<and> now - last_request spam < 2 * second"
  then show "snd (spam_gate sc user now) =
        Throttled ((2 * second - (now - last_request spam)) div second)"
    by (intro throttled_gate) auto
qed

theorem rate_limit_burst_witness:
  "spam_gate [7 \<mapsto> \<lparr>request_count = 5, last_request = 2000000, blocked_until = Some 12000000\<rparr>]
     7 3000000 =
     ([7 \<mapsto> \<lparr>request_count = 5, last_request = 2000000, blocked_until = Some 12000000\<rparr>],
      Locked 9) \<and>
   spam_gate [7 \<mapsto> \<lparr>request_count = 5, last_request = 2000000, blocked_until = Some 12000000\<rparr>]
     7 5500000 =
     ([7 \<mapsto> \<lparr>request_count = 5, last_request = 2000000, blocked_until = Some 12000000\<rparr>],
      Locked 6) \<and>
   snd (spam_gate [7 \<mapsto> \<lparr>request_count = 2, last_request = 1000000, blocked_until = None\<rparr>]
     7 1250000) = Throttled 1"
proof -
  let ?locked = "[7 \<mapsto> \<lparr>request_count = 5, last_request = 2000000,
                        blocked_until = Some (12000000::int)\<rparr>]"
  let ?busy = "[7 \<mapsto> \<lparr>request_count = 2, last_request = 1000000,
                      blocked_until = (None::int option)\<rparr>]"
  note inst = rate_limit_burst [of 7]
  from inst have locked: "\<And>sc spam until t1 t2.
      sc 7 = Some spam \<Longrightarrow> blocked_until spam = Some until \<Longrightarrow> t1 \<le> t2 \<Longrightarrow> t2 < until \<Longrightarrow>
      spam_gate sc 7 t1 = (sc, Locked ((until - t1) div second)) \<and>
      spam_gate sc 7 t2 = (sc, Locked ((until - t2) div second))"
    by blast
  from inst have throttled: "\<And>sc spam now.
      sc 7 = Some spam \<Longrightarrow>
      (case blocked_until spam of
         None \<Rightarrow> request_count spam + 1 < 5
       | Some until \<Rightarrow> until \<le> now) \<Longrightarrow>
      last_request spam \<le> now \<Longrightarrow> now - last_request spam < 2 * second \<Longrightarrow>
      snd (spam_gate sc 7 now) = Throttled ((2 * second - (now - last_request spam)) div second)"
    by blast
  have "spam_gate ?locked 7 3000000 = (?locked, Locked ((12000000 - 3000000) div second)) \<and>
      spam_gate ?locked 7 5500000 = (?locked, Locked ((12000000 - 5500000) div second))"
    by (rule locked [of _ "\<lparr>request_count = 5, last_request = 2000000,
                              blocked_until = Some 12000000\<rparr>" 12000000])
       simp_all
  moreover have "snd (spam_gate ?busy 7 1250000) =
      Throttled ((2 * second - (1250000 - last_request
        \<lparr>request_count = 2, last_request = 1000000, blocked_until = (None::int option)\<rparr>))
        div second)"
    by (rule throttled [of _ "\<lparr>request_count = 2, last_request = 1000000,
                                 blocked_until = None\<rparr>"])
       (simp_all add: second_def)
  ultimately show ?thesis by (simp add: second_def)
qed

section \<open>Properties of the membership evaluation\<close>

lemma check_channel_other_key:
  "key \<noteq> fst entry \<Longrightarrow> fst (check_channel gw user entry (m, nj, q)) key = m key"
  by (cases entry) (simp add: check_channel_def split: option.splits)

lemma check_channel_keeps_not_joined:
  "set nj \<subseteq> set (fst (snd (check_channel gw user entry (m, nj, q))))"
  by (cases entry) (auto simp add: check_channel_def split: option.splits)

lemma check_channels_keeps_not_joined:
  "set nj \<subseteq> set (fst (snd (check_channels gw user chans (m, nj, q))))"
proof (induction chans arbitrary: m nj q)
  case Nil
  show ?case by simp
next
  case (Cons entry rest)
  obtain m1 nj1 q1 where step: "check_channel gw user entry (m, nj, q) = (m1, nj1, q1)"
    by (cases "check_channel gw user entry (m, nj, q)") auto
  have "set nj \<subseteq> set nj1"
    using check_channel_keeps_not_joined [of nj gw user entry m q] step by simp
  moreover have "set nj1 \<subseteq> set (fst (snd (check_channels gw user rest (m1, nj1, q1))))"
    by (rule Cons.IH)
  ultimately show ?case using step by simp
qed

lemma check_channel_raise_unmet:
  assumes "auto_chat info = Some c" "gw c user = None" "m key \<noteq> Some True"
  shows "info \<in> set (fst (snd (check_channel gw user (key, info) (m, nj, q))))"
  using assms by (simp add: check_channel_def)

lemma check_channels_raise_unmet:
  assumes "distinct (map fst chans)" "(key, info) \<in> set chans"
    and "auto_chat info = Some c" "gw c user = None" "m key \<noteq> Some True"
  shows "info \<in> set (fst (snd (check_channels gw user chans (m, nj, q))))"
  using assms
proof (induction chans arbitrary: m nj q)
  case Nil
  then show ?case by simp
next
  case (Cons entry rest)
  obtain m1 nj1 q1 where step: "check_channel gw user entry (m, nj, q) = (m1, nj1, q1)"
    by (cases "check_channel gw user entry (m, nj, q)") auto
  show ?case
  proof (cases "entry = (key, info)")
    case True
    have "info \<in> set nj1"
      using check_channel_raise_unmet [where gw = gw and m = m and info = info and c = c
          and user = user and key = key and nj = nj and q = q]
        Cons.prems(3) Cons.prems(4) Cons.prems(5) step True
      by simp
    then show ?thesis
      using check_channels_keeps_not_joined [of nj1 gw user rest m1 q1] step by auto
  next
    case False
    then have in_rest: "(key, info) \<in> set rest" using Cons.prems(2) by simp
    then have "key \<in> fst ` set rest" by force
    moreover have "fst entry \<notin> fst ` set rest" using Cons.prems(1) by simp
    ultimately have "key \<noteq> fst entry" by blast
    then have "m1 key = m key"
      using check_channel_other_key [of key entry gw user m nj q] step by simp
    then have "m1 key \<noteq> Some True" using Cons.prems(5) by simp
    moreover have "distinct (map fst rest)" using Cons.prems(1) by simp
    ultimately have "info \<in> set (fst (snd (check_channels gw user rest (m1, nj1, q1))))"
      using Cons.IH in_rest Cons.prems(3) Cons.prems(4) by blast
    then show ?thesis using step by simp
  qed
qed

lemma check_channel_asks_own_key:
  "fst ` set (snd (snd (check_channel gw user entry (m, nj, q)))) \<subseteq> insert (fst entry) (fst ` set q)"
  by (cases entry) (auto simp add: check_channel_def split: option.splits)

lemma check_channel_adds_own_info:
  "set (fst (snd (check_channel gw user entry (m, nj, q)))) \<subseteq> insert (snd entry) (set nj)"
  by (cases entry) (auto simp add: check_channel_def split: option.splits)

lemma check_channel_trusted_unchanged:
  "m key = Some True \<Longrightarrow> auto_chat info = None \<Longrightarrow>
   check_channel gw user (key, info) (m, nj, q) = (m, nj, q)"
  by (simp add: check_channel_def)

lemma check_channels_trusted:
  assumes "\<forall>e \<in> set chans. fst e = key \<longrightarrow> snd e = info"
    and "\<forall>e \<in> set chans. fst e \<noteq> key \<longrightarrow> snd e \<noteq> info"
    and "auto_chat info = None"
    and "m key = Some True" "info \<notin> set nj" "key \<notin> fst ` set q"
    and "check_channels gw user chans (m, nj, q) = (m', nj', q')"
  shows "m' key = Some True \<and> info \<notin> set nj' \<and> key \<notin> fst ` set q'"
  using assms
proof (induction chans arbitrary: m nj q)
  case Nil
  then show ?case by simp
next
  case (Cons entry rest)
  obtain m1 nj1 q1 where step: "check_channel gw user entry (m, nj, q) = (m1, nj1, q1)"
    by (cases "check_channel gw user entry (m, nj, q)") auto
  have rest: "check_channels gw user rest (m1, nj1, q1) = (m', nj', q')"
    using Cons.prems(7) step by simp
  have h1: "\<forall>e \<in> set rest. fst e = key \<longrightarrow> snd e = info" using Cons.prems(1) by simp
  have h2: "\<forall>e \<in> set rest. fst e \<noteq> key \<longrightarrow> snd e \<noteq> info" using Cons.prems(2) by simp
  have kept: "m1 key = Some True \<and> info \<notin> set nj1 \<and> key \<notin> fst ` set q1"
  proof (cases "fst entry = key")
    case True
    then have "entry = (key, info)" using Cons.prems(1) by (cases entry) auto
    then have "(m1, nj1, q1) = (m, nj, q)"
      using check_channel_trusted_unchanged [where m = m and key = key and info = info
          and gw = gw and user = user and nj = nj and q = q]
        Cons.prems(3) Cons.prems(4) step
      by simp
    then show ?thesis using Cons.prems(4,5,6) by simp
  next
    case False
    then have other: "snd entry \<noteq> info" using Cons.prems(2) by simp
    have "m1 key = m key"
      using check_channel_other_key [of key entry gw user m nj q] False step by auto
    moreover have "set nj1 \<subseteq> insert (snd entry) (set nj)"
      using check_channel_adds_own_info [of gw user entry m nj q] step by simp
    moreover have "fst ` set q1 \<subseteq> insert (fst entry) (fst ` set q)"
      using check_channel_asks_own_key [of gw user entry m nj q] step by simp
    ultimately show ?thesis using Cons.prems(4,5,6) other False by auto
  qed
  show ?case
    using Cons.IH [where m = m1 and nj = nj1 and q = q1] h1 h2 Cons.prems(3) rest kept by blast
qed

lemma registered_same_key:
  assumes "registered chans" "(key, info) \<in> set chans"
  shows "\<forall>e \<in> set chans. fst e = key \<longrightarrow> snd e = info"
proof
  fix e assume e: "e \<in> set chans"
  show "fst e = key \<longrightarrow> snd e = info"
  proof
    assume "fst e = key"
    then have "(key, snd e) \<in> set chans" using e by (cases e) auto
    moreover have "distinct (map fst chans)" using assms(1) by (simp add: registered_def)
    ultimately show "snd e = info" using assms(2) eq_key_imp_eq_value by fastforce
  qed
qed

lemma registered_key_of:
  assumes "registered chans" "e \<in> set chans"
  shows "fst e = channel_key (snd e)"
  using assms by (auto simp add: registered_def list_all_iff)

lemma registered_other_key:
  assumes "registered chans" "(key, info) \<in> set chans"
  shows "\<forall>e \<in> set chans. fst e \<noteq> key \<longrightarrow> snd e \<noteq> info"
proof (intro ballI impI)
  fix e assume e: "e \<in> set chans" and other: "fst e \<noteq> key"
  have "fst e = channel_key (snd e)" using registered_key_of [OF assms(1) e] .
  moreover have "key = channel_key info" using registered_key_of [OF assms(1) assms(2)] by simp
  ultimately show "snd e \<noteq> info" using other by auto
qed

lemma trust_has_no_auto_chat: "\<not> can_auto_verify info \<Longrightarrow> auto_chat info = None"
  by (simp add: auto_chat_def)

lemma check_membership_trusted:
  assumes "registered (mandatory_channels s)" "(key, info) \<in> set (mandatory_channels s)"
    and "\<not> can_auto_verify info"
    and "membership_record s user key = Some True"
    and "check_membership s gw user = (s', is_member, nj, q)"
  shows "info \<notin> set nj \<and> key \<notin> fst ` set q \<and> membership_record s' user key = Some True \<and>
         mandatory_channels s' = mandatory_channels s"
proof -
  let ?m0 = "case user_channel_memberships s user of Some m \<Rightarrow> m | None \<Rightarrow> Map.empty"
  have ne: "mandatory_channels s \<noteq> []" using assms(2) by auto
  obtain m1 nj1 q1 where run:
    "check_channels gw user (mandatory_channels s) (?m0, [], []) = (m1, nj1, q1)"
    by (cases "check_channels gw user (mandatory_channels s) (?m0, [], [])") auto
  have m0: "?m0 key = Some True"
    using assms(4) by (simp add: membership_record_def split: option.splits)
  have "m1 key = Some True \<and> info \<notin> set nj1 \<and> key \<notin> fst ` set q1"
    using check_channels_trusted [where chans = "mandatory_channels s" and key = key
        and info = info and m = ?m0 and nj = "[]" and q = "[]" and gw = gw and user = user
        and m' = m1 and nj' = nj1 and q' = q1]
      registered_same_key [OF assms(1,2)] registered_other_key [OF assms(1,2)]
      trust_has_no_auto_chat [OF assms(3)] m0 run
    by simp
  moreover have "s' = s\<lparr>user_channel_memberships := (user_channel_memberships s)(user \<mapsto> m1)\<rparr>"
    and "nj = nj1" and "q = q1"
    using assms(5) ne run by (simp_all add: check_membership_def Let_def)
  ultimately show ?thesis by (simp add: membership_record_def)
qed

lemma membership_record_mark:
  "membership_record (mark_user_joined_channel s user key) user key' =
     (if key' = key then Some True else membership_record s user key')"
  by (simp add: membership_record_def mark_user_joined_channel_def Let_def split: option.splits)

lemma mandatory_channels_mark [simp]:
  "mandatory_channels (mark_user_joined_channel s user key) = mandatory_channels s"
  by (simp add: mark_user_joined_channel_def Let_def)

lemma evaluations_trusted:
  assumes "registered (mandatory_channels s)" "(key, info) \<in> set (mandatory_channels s)"
    and "\<not> can_auto_verify info"
    and "membership_record s user key = Some True"
  shows "list_all (\<lambda>answer. info \<notin> set (fst (snd answer)) \<and> key \<notin> fst ` set (snd (snd answer)))
           (evaluations s user gws)"
  using assms
proof (induction gws arbitrary: s)
  case Nil
  then show ?case by simp
next
  case (Cons gw gws)
  obtain s1 im nj q where ev: "check_membership s gw user = (s1, im, nj, q)"
    by (cases "check_membership s gw user") auto
  note one = check_membership_trusted [OF Cons.prems ev]
  then have "list_all (\<lambda>answer. info \<notin> set (fst (snd answer)) \<and> key \<notin> fst ` set (snd (snd answer)))
           (evaluations s1 user gws)"
    using Cons.IH [of s1] Cons.prems by simp
  then show ?case using ev one by simp
qed

lemma check_channel_cached_error:
  "m key = Some True \<Longrightarrow> auto_chat info = Some c \<Longrightarrow> gw c user = None \<Longrightarrow>
   check_channel gw user (key, info) (m, nj, q) = (m, nj, q @ [(key, c)])"
  by (simp add: check_channel_def)

lemma check_channels_cached_kept:
  assumes "\<forall>e \<in> set chans. fst e = key \<longrightarrow> snd e = info"
    and "\<forall>e \<in> set chans. fst e \<noteq> key \<longrightarrow> snd e \<noteq> info"
    and "auto_chat info = Some c" and "gw c user = None"
    and "m key = Some True" "info \<notin> set nj"
    and "check_channels gw user chans (m, nj, q) = (m', nj', q')"
  shows "m' key = Some True \<and> info \<notin> set nj'"
  using assms
proof (induction chans arbitrary: m nj q)
  case Nil
  then show ?case by simp
next
  case (Cons entry rest)
  obtain m1 nj1 q1 where step: "check_channel gw user entry (m, nj, q) = (m1, nj1, q1)"
    by (cases "check_channel gw user entry (m, nj, q)") auto
  have rest: "check_channels gw user rest (m1, nj1, q1) = (m', nj', q')"
    using Cons.prems(7) step by simp
  have h1: "\<forall>e \<in> set rest. fst e = key \<longrightarrow> snd e = info" using Cons.prems(1) by simp
  have h2: "\<forall>e \<in> set rest. fst e \<noteq> key \<longrightarrow> snd e \<noteq> info" using Cons.prems(2) by simp
  have kept: "m1 key = Some True \<and> info \<notin> set nj1"
  proof (cases "fst entry = key")
    case True
    then have "entry = (key, info)" using Cons.prems(1) by (cases entry) auto
    then have "(m1, nj1, q1) = (m, nj, q @ [(key, c)])"
      using check_channel_cached_error [where m = m and key = key and info = info
          and gw = gw and user = user and nj = nj and q = q and c = c]
        Cons.prems(3) Cons.prems(4) Cons.prems(5) step
      by simp
    then show ?thesis using Cons.prems(5,6) by simp
  next
    case False
    then have other: "snd entry \<noteq> info" using Cons.prems(2) by simp
    have "m1 key = m key"
      using check_channel_other_key [of key entry gw user m nj q] False step by auto
    moreover have "set nj1 \<subseteq> insert (snd entry) (set nj)"
      using check_channel_adds_own_info [of gw user entry m nj q] step by simp
    ultimately show ?thesis using Cons.prems(5,6) other by auto
  qed
  show ?case
    using Cons.IH [where m = m1 and nj = nj1 and q = q1] h1 h2 Cons.prems(3) Cons.prems(4)
      rest kept by blast
qed

lemma check_membership_cached_error:
  assumes "registered (mandatory_channels s)" "(key, info) \<in> set (mandatory_channels s)"
    and "auto_chat info = Some c" and "gw c user = None"
    and "membership_record s user key = Some True"
  shows "info \<notin> set (fst (snd (snd (check_membership s gw user)))) \<and>
         membership_record (fst (check_membership s gw user)) user key = Some True"
proof -
  let ?m0 = "case user_channel_memberships s user of Some m \<Rightarrow> m | None \<Rightarrow> Map.empty"
  have ne: "mandatory_channels s \<noteq> []" using assms(2) by auto
  obtain m1 nj1 q1 where run:
    "check_channels gw user (mandatory_channels s) (?m0, [], []) = (m1, nj1, q1)"
    by (cases "check_channels gw user (mandatory_channels s) (?m0, [], [])") auto
  have m0: "?m0 key = Some True"
    using assms(5) by (simp add: membership_record_def split: option.splits)
  have "m1 key = Some True \<and> info \<notin> set nj1"
    using check_channels_cached_kept [where chans = "mandatory_channels s" and key = key
        and info = info and m = ?m0 and nj = "[]" and q = "[]" and gw = gw and user = user
        and m' = m1 and nj' = nj1 and q' = q1 and c = c]
      registered_same_key [OF assms(1,2)] registered_other_key [OF assms(1,2)]
      assms(3) assms(4) m0 run
    by simp
  then show ?thesis
    using ne run by (simp add: check_membership_def Let_def membership_record_def)
qed

text \<open>
  Claim C2, as amended. The gateway raises for a requirement that is verified
  automatically. If the user's cached record for it is not true when the evaluation
  starts, the evaluation reports the requirement as unmet and the user as not a member.
  If the record is true, the handler of line 223 only logs: the loop's step for the
  requirement changes neither the cache nor \<^verbatim>\<open>not_joined\<close>, and in a registry that keeps
  the wizards' keys the evaluation leaves the requirement out of \<^verbatim>\<open>not_joined\<close> and the
  record true.
\<close>

theorem gateway_error_unmet_unless_cached:
  assumes "distinct (map fst (mandatory_channels s))"
    and "(key, info) \<in> set (mandatory_channels s)"
    and "auto_chat info = Some c"
    and "gw c user = None"
  shows "(membership_record s user key \<noteq> Some True \<longrightarrow>
            info \<in> set (fst (snd (snd (check_membership s gw user)))) \<and>
            \<not> fst (snd (check_membership s gw user))) \<and>
         (membership_record s user key = Some True \<and> registered (mandatory_channels s) \<longrightarrow>
            info \<notin> set (fst (snd (snd (check_membership s gw user)))) \<and>
            membership_record (fst (check_membership s gw user)) user key = Some True) \<and>
         (\<forall>m not_joined asked. m key = Some True \<longrightarrow>
            check_channel gw user (key, info) (m, not_joined, asked) =
              (m, not_joined, asked @ [(key, c)]))"
proof (intro conjI impI allI)
  assume cold: "membership_record s user key \<noteq> Some True"
  let ?m0 = "case user_channel_memberships s user of Some m \<Rightarrow> m | None \<Rightarrow> Map.empty"
  have ne: "mandatory_channels s \<noteq> []" using assms(2) by auto
  have "?m0 key \<noteq> Some True"
    using cold by (simp add: membership_record_def split: option.splits)
  then have "info \<in> set (fst (snd (check_channels gw user (mandatory_channels s) (?m0, [], []))))"
    using check_channels_raise_unmet [where gw = gw and m = ?m0 and info = info and c = c
        and user = user and key = key and chans = "mandatory_channels s" and nj = "[]" and q = "[]"]
      assms(1) assms(2) assms(3) assms(4)
    by simp
  then have both: "info \<in> set (fst (snd (snd (check_membership s gw user)))) \<and>
         \<not> fst (snd (check_membership s gw user))"
    using ne by (auto simp add: check_membership_def Let_def split: prod.splits)
  from both show "info \<in> set (fst (snd (snd (check_membership s gw user))))" by simp
  from both show "\<not> fst (snd (check_membership s gw user))" by simp
next
  assume warm: "membership_record s user key = Some True \<and> registered (mandatory_channels s)"
  then have both: "info \<notin> set (fst (snd (snd (check_membership s gw user)))) \<and>
         membership_record (fst (check_membership s gw user)) user key = Some True"
    using check_membership_cached_error [where s = s and key = key and info = info and c = c
        and gw = gw and user = user] assms(2) assms(3) assms(4)
    by simp
  from both show "info \<notin> set (fst (snd (snd (check_membership s gw user))))" by simp
  from both show "membership_record (fst (check_membership s gw user)) user key = Some True" by simp
next
  fix m :: membership and not_joined :: "channel_info list" and asked :: "query list"
  assume "m key = Some True"
  then show "check_channel gw user (key, info) (m, not_joined, asked) =
              (m, not_joined, asked @ [(key, c)])"
    using check_channel_cached_error [where m = m and key = key and info = info
          and gw = gw and user = user and nj = not_joined and q = asked and c = c]
      assms(3) assms(4) by simp
qed

text \<open>
  Claim C2 as stated fails: the user was verified before, the gateway now raises, and the
  evaluation still answers that every requirement is met.
\<close>

theorem fail_closed_counterexample:
  "auto_chat auto_channel = Some (- 1001) \<and>
   failing_gateway (- 1001) 7 = None \<and>
   check_membership
     ((initial_state 1)\<lparr>mandatory_channels := [(''-1001'', auto_channel)],
                        user_channel_memberships := [7 \<mapsto> [''-1001'' \<mapsto> True]]\<rparr>)
     failing_gateway 7 =
     ((initial_state 1)\<lparr>mandatory_channels := [(''-1001'', auto_channel)],
                        user_channel_memberships := [7 \<mapsto> [''-1001'' \<mapsto> True]]\<rparr>,
      True, [], [(''-1001'', - 1001)])"
  by (simp add: check_membership_def check_channel_def auto_chat_def chat_id_or_identifier_def
      auto_channel_def failing_gateway_def initial_state_def)

theorem gateway_error_unmet_unless_cached_witness:
  "auto_channel \<in> set (fst (snd (snd (check_membership
      ((initial_state 1)\<lparr>mandatory_channels := [(''-1001'', auto_channel)],
                         user_channel_memberships := [7 \<mapsto> [''-1001'' \<mapsto> False]]\<rparr>)
      failing_gateway 7)))) \<and>
   \<not> fst (snd (check_membership
      ((initial_state 1)\<lparr>mandatory_channels := [(''-1001'', auto_channel)],
                         user_channel_memberships := [7 \<mapsto> [''-1001'' \<mapsto> False]]\<rparr>)
      failing_gateway 7)) \<and>
   auto_channel \<notin> set (fst (snd (snd (check_membership
      ((initial_state 1)\<lparr>mandatory_channels := [(''-1001'', auto_channel)],
                         user_channel_memberships := [7 \<mapsto> [''-1001'' \<mapsto> True]]\<rparr>)
      failing_gateway 7)))) \<and>
   membership_record (fst (check_membership
      ((initial_state 1)\<lparr>mandatory_channels := [(''-1001'', auto_channel)],
                         user_channel_memberships := [7 \<mapsto> [''-1001'' \<mapsto> True]]\<rparr>)
      failing_gateway 7)) 7 ''-1001'' = Some True"
proof -
  let ?cold = "(initial_state 1)\<lparr>mandatory_channels := [(''-1001'', auto_channel)],
                         user_channel_memberships := [7 \<mapsto> [''-1001'' \<mapsto> False]]\<rparr>"
  let ?warm = "(initial_state 1)\<lparr>mandatory_channels := [(''-1001'', auto_channel)],
                         user_channel_memberships := [7 \<mapsto> [''-1001'' \<mapsto> True]]\<rparr>"
  have a: "auto_chat auto_channel = Some (- 1001)"
    by (simp add: auto_chat_def chat_id_or_identifier_def auto_channel_def)
  have g: "failing_gateway (- 1001) 7 = None" by (simp add: failing_gateway_def)
  have k: "str_int (- 1001) = ''-1001''" by code_simp
  have r: "registered (mandatory_channels ?warm)"
    by (simp add: registered_def channel_key_def chat_id_or_identifier_def auto_channel_def k)
  have "membership_record ?cold 7 ''-1001'' \<noteq> Some True"
    by (simp add: membership_record_def)
  moreover have "membership_record ?warm 7 ''-1001'' = Some True"
    by (simp add: membership_record_def)
  moreover note
    gateway_error_unmet_unless_cached [where s = ?cold and key = "''-1001''"
      and info = auto_channel and c = "- 1001" and gw = failing_gateway and user = 7]
    gateway_error_unmet_unless_cached [where s = ?warm and key = "''-1001''"
      and info = auto_channel and c = "- 1001" and gw = failing_gateway and user = 7]
  ultimately show ?thesis using a g r by simp
qed

lemma split_not_joined_frame:
  "split_not_joined s user nj = (s', failed, trusted) \<Longrightarrow>
   failed = filter can_auto_verify nj \<and> trusted = filter (\<lambda>c. \<not> can_auto_verify c) nj \<and>
   files s' = files s \<and> downloads s' = downloads s \<and>
   mandatory_channels s' = mandatory_channels s \<and> users s' = users s \<and>
   spam_control s' = spam_control s \<and> admins s' = admins s"
proof (induction nj arbitrary: s s' failed trusted)
  case Nil
  then show ?case by simp
next
  case (Cons channel rest)
  show ?case
  proof (cases "can_auto_verify channel")
    case True
    obtain s1 f1 t1 where r: "split_not_joined s user rest = (s1, f1, t1)"
      by (cases "split_not_joined s user rest") auto
    from Cons.IH [OF r] Cons.prems True r show ?thesis by auto
  next
    case False
    let ?s0 = "mark_user_joined_channel s user (channel_key channel)"
    obtain s1 f1 t1 where r: "split_not_joined ?s0 user rest = (s1, f1, t1)"
      by (cases "split_not_joined ?s0 user rest") auto
    from Cons.IH [OF r] Cons.prems False r show ?thesis
      by (auto simp add: mark_user_joined_channel_def Let_def)
  qed
qed

lemma split_not_joined_keeps_true:
  "split_not_joined s user nj = (s', failed, trusted) \<Longrightarrow>
   membership_record s user key = Some True \<Longrightarrow> membership_record s' user key = Some True"
proof (induction nj arbitrary: s s' failed trusted)
  case Nil
  then show ?case by simp
next
  case (Cons channel rest)
  show ?case
  proof (cases "can_auto_verify channel")
    case True
    obtain s1 f1 t1 where r: "split_not_joined s user rest = (s1, f1, t1)"
      by (cases "split_not_joined s user rest") auto
    from Cons.IH [OF r Cons.prems(2)] Cons.prems(1) True r show ?thesis by auto
  next
    case False
    let ?s0 = "mark_user_joined_channel s user (channel_key channel)"
    obtain s1 f1 t1 where r: "split_not_joined ?s0 user rest = (s1, f1, t1)"
      by (cases "split_not_joined ?s0 user rest") auto
    have "membership_record ?s0 user key = Some True"
      using Cons.prems(2) by (simp add: membership_record_mark)
    from Cons.IH [OF r this] Cons.prems(1) False r show ?thesis by auto
  qed
qed

lemma split_not_joined_marks:
  "split_not_joined s user nj = (s', failed, trusted) \<Longrightarrow>
   t \<in> set nj \<Longrightarrow> \<not> can_auto_verify t \<Longrightarrow>
   membership_record s' user (channel_key t) = Some True"
proof (induction nj arbitrary: s s' failed trusted)
  case Nil
  then show ?case by simp
next
  case (Cons channel rest)
  show ?case
  proof (cases "can_auto_verify channel")
    case True
    obtain s1 f1 t1 where r: "split_not_joined s user rest = (s1, f1, t1)"
      by (cases "split_not_joined s user rest") auto
    have "t \<in> set rest" using Cons.prems(2,3) True by auto
    from Cons.IH [OF r this Cons.prems(3)] Cons.prems(1) True r show ?thesis by auto
  next
    case False
    let ?s0 = "mark_user_joined_channel s user (channel_key channel)"
    obtain s1 f1 t1 where r: "split_not_joined ?s0 user rest = (s1, f1, t1)"
      by (cases "split_not_joined ?s0 user rest") auto
    have s1: "s' = s1" using Cons.prems(1) False r by simp
    show ?thesis
    proof (cases "t = channel")
      case True
      have "membership_record ?s0 user (channel_key t) = Some True"
        using True by (simp add: membership_record_mark)
      then show ?thesis using split_not_joined_keeps_true [OF r] s1 by simp
    next
      case False
      then have "t \<in> set rest" using Cons.prems(2) by simp
      from Cons.IH [OF r this Cons.prems(3)] s1 show ?thesis by simp
    qed
  qed
qed

lemma check_membership_frame:
  "check_membership s gw user = (s', is_member, nj, q) \<Longrightarrow>
   mandatory_channels s' = mandatory_channels s \<and> files s' = files s \<and>
   downloads s' = downloads s \<and> users s' = users s \<and>
   spam_control s' = spam_control s \<and> admins s' = admins s"
  by (auto simp add: check_membership_def Let_def split: if_splits prod.splits)

lemma spam_checks_passed:
  "request_gate s user now = (s1, Allowed) \<Longrightarrow> spam_checks s user now = (s1, Passed)"
  by (auto simp add: request_gate_def spam_checks_def spam_gate_def
      split: if_splits prod.splits bool.splits)

lemma request_gate_frame:
  "request_gate s user now = (s1, out) \<Longrightarrow>
   files s1 = files s \<and> downloads s1 = downloads s \<and>
   mandatory_channels s1 = mandatory_channels s \<and>
   user_channel_memberships s1 = user_channel_memberships s \<and> users s1 = users s"
  by (auto simp add: request_gate_def split: if_splits prod.splits)

lemma send_files_to_user_frame:
  "send_files_to_user s tr now user fg code = (s1, sent) \<Longrightarrow>
   user_channel_memberships s1 = user_channel_memberships s \<and>
   mandatory_channels s1 = mandatory_channels s"
  by (auto simp add: send_files_to_user_def Let_def split: prod.splits if_splits)

lemma check_deliver_frame:
  "user_channel_memberships (fst (check_deliver s tr now user code before)) =
     user_channel_memberships s \<and>
   mandatory_channels (fst (check_deliver s tr now user code before)) = mandatory_channels s"
  by (auto simp add: check_deliver_def split: option.splits prod.splits
      dest: send_files_to_user_frame)

lemma button_check_records_assertion:
  assumes "registered (mandatory_channels s)"
    and "request_gate s user now = (s1, Allowed)"
    and "check_membership s1 gw user = (s2, is_member, not_joined, asked)"
    and "e \<in> set (mandatory_channels s)" "snd e \<in> set not_joined" "\<not> can_auto_verify (snd e)"
  shows "membership_record (fst (button_check s gw tr now user code)) user (fst e) = Some True \<and>
         mandatory_channels (fst (button_check s gw tr now user code)) = mandatory_channels s"
proof -
  obtain s3 af tb where sp: "split_not_joined s2 user not_joined = (s3, af, tb)"
    by (cases "split_not_joined s2 user not_joined") auto
  note frame = split_not_joined_frame [OF sp]
  note gate = request_gate_frame [OF assms(2)]
  note ev = check_membership_frame [OF assms(3)]
  have nj: "not_joined \<noteq> []" using assms(5) by auto
  have key: "fst e = channel_key (snd e)" using registered_key_of [OF assms(1) assms(4)] .
  have marked: "membership_record s3 user (fst e) = Some True"
    using split_not_joined_marks [OF sp assms(5) assms(6)] key by simp
  have chans: "mandatory_channels s3 = mandatory_channels s" using frame gate ev by simp
  let ?before = "asks asked @ (if tb \<noteq> [] then [Reply (TrustWarning tb)] else [])"
  have final: "fst (button_check s gw tr now user code) =
      (if af \<noteq> [] then s3 else fst (check_deliver s3 tr now user code ?before))"
    using spam_checks_passed [OF assms(2)] assms(3) sp nj by (simp add: button_check_def)
  show ?thesis
  proof (cases "af \<noteq> []")
    case True
    then show ?thesis using final marked chans by simp
  next
    case False
    then show ?thesis
      using final marked chans check_deliver_frame [of s3 tr now user code ?before]
      by (simp add: membership_record_def)
  qed
qed

text \<open>
  Claim C9. Take a requirement registered in trust mode (\<^verbatim>\<open>can_auto_verify\<close> false).
  When the user's press of \<^emph>\<open>I joined\<close> passes the spam checks and the evaluation finds the
  requirement unmet, the state the callback leaves behind has the user's record for it
  true, whether the callback then delivers, finds no bundle or refuses for another
  requirement; and every evaluation that follows, whatever the gateway answers, leaves
  the requirement out of \<^verbatim>\<open>not_joined\<close> and sends no query for it. The same holds after
  \<^verbatim>\<open>mark_user_joined_channel\<close> alone, and more generally any evaluation that starts with
  the record true (it was not reset) does so and leaves the record true.
\<close>

theorem trust_assertion_sticks:
  assumes "registered (mandatory_channels s)"
    and "(key, info) \<in> set (mandatory_channels s)"
    and "\<not> can_auto_verify info"
  shows "membership_record (mark_user_joined_channel s user (channel_key info)) user key = Some True \<and>
         list_all (\<lambda>answer. info \<notin> set (fst (snd answer)) \<and> key \<notin> fst ` set (snd (snd answer)))
           (evaluations (mark_user_joined_channel s user (channel_key info)) user gws) \<and>
         (\<forall>s1 gw. mandatory_channels s1 = mandatory_channels s \<and>
                  membership_record s1 user key = Some True \<longrightarrow>
            (case check_membership s1 gw user of
               (s2, is_member, not_joined, asked) \<Rightarrow>
                 info \<notin> set not_joined \<and> key \<notin> fst ` set asked \<and>
                 membership_record s2 user key = Some True \<and>
                 mandatory_channels s2 = mandatory_channels s)) \<and>
         (\<forall>gw tr now code s1 s2 is_member not_joined asked.
            request_gate s user now = (s1, Allowed) \<and>
            check_membership s1 gw user = (s2, is_member, not_joined, asked) \<and>
            info \<in> set not_joined \<longrightarrow>
            membership_record (fst (button_check s gw tr now user code)) user key = Some True \<and>
            list_all (\<lambda>answer. info \<notin> set (fst (snd answer)) \<and>
                               key \<notin> fst ` set (snd (snd answer)))
              (evaluations (fst (button_check s gw tr now user code)) user gws))"
proof -
  have key: "key = channel_key info"
    using registered_key_of [OF assms(1,2)] by simp
  have marked: "membership_record (mark_user_joined_channel s user (channel_key info)) user key = Some True"
    using key by (simp add: membership_record_mark)
  have later: "list_all (\<lambda>answer. info \<notin> set (fst (snd answer)) \<and> key \<notin> fst ` set (snd (snd answer)))
           (evaluations (mark_user_joined_channel s user (channel_key info)) user gws)"
    by (rule evaluations_trusted [OF _ _ assms(3) marked]) (simp_all add: assms)
  have kept: "\<forall>s1 gw. mandatory_channels s1 = mandatory_channels s \<and>
                  membership_record s1 user key = Some True \<longrightarrow>
            (case check_membership s1 gw user of
               (s2, is_member, not_joined, asked) \<Rightarrow>
                 info \<notin> set not_joined \<and> key \<notin> fst ` set asked \<and>
                 membership_record s2 user key = Some True \<and>
                 mandatory_channels s2 = mandatory_channels s)"
  proof (intro allI impI)
    fix s1 gw
    assume h: "mandatory_channels s1 = mandatory_channels s \<and>
                  membership_record s1 user key = Some True"
    obtain s2 im nj q where ev: "check_membership s1 gw user = (s2, im, nj, q)"
      by (cases "check_membership s1 gw user") auto
    have "info \<notin> set nj \<and> key \<notin> fst ` set q \<and> membership_record s2 user key = Some True \<and>
         mandatory_channels s2 = mandatory_channels s1"
      by (rule check_membership_trusted [OF _ _ assms(3) _ ev]) (simp_all add: h assms)
    then show "case check_membership s1 gw user of
               (s2, is_member, not_joined, asked) \<Rightarrow>
                 info \<notin> set not_joined \<and> key \<notin> fst ` set asked \<and>
                 membership_record s2 user key = Some True \<and>
                 mandatory_channels s2 = mandatory_channels s"
      using ev h by simp
  qed
  have pressed: "\<forall>gw tr now code s1 s2 is_member not_joined asked.
            request_gate s user now = (s1, Allowed) \<and>
            check_membership s1 gw user = (s2, is_member, not_joined, asked) \<and>
            info \<in> set not_joined \<longrightarrow>
            membership_record (fst (button_check s gw tr now user code)) user key = Some True \<and>
            list_all (\<lambda>answer. info \<notin> set (fst (snd answer)) \<and>
                               key \<notin> fst ` set (snd (snd answer)))
              (evaluations (fst (button_check s gw tr now user code)) user gws)"
  proof (intro allI impI)
    fix gw tr now code s1 s2 is_member not_joined asked
    assume h: "request_gate s user now = (s1, Allowed) \<and>
            check_membership s1 gw user = (s2, is_member, not_joined, asked) \<and>
            info \<in> set not_joined"
    let ?after = "fst (button_check s gw tr now user code)"
    have rec: "membership_record ?after user key = Some True \<and>
               mandatory_channels ?after = mandatory_channels s"
      using button_check_records_assertion [where e = "(key, info)" and s = s and user = user
          and now = now and ?s1.0 = s1 and gw = gw and ?s2.0 = s2 and is_member = is_member
          and not_joined = not_joined and asked = asked and tr = tr and code = code]
        assms h by simp
    have "list_all (\<lambda>answer. info \<notin> set (fst (snd answer)) \<and>
                               key \<notin> fst ` set (snd (snd answer)))
              (evaluations ?after user gws)"
      by (rule evaluations_trusted [where s = ?after and key = key and info = info])
         (simp_all add: rec assms)
    then show "membership_record ?after user key = Some True \<and>
            list_all (\<lambda>answer. info \<notin> set (fst (snd answer)) \<and>
                               key \<notin> fst ` set (snd (snd answer)))
              (evaluations ?after user gws)"
      using rec by simp
  qed
  show ?thesis using marked later kept pressed by blast
qed

theorem trust_assertion_sticks_witness:
  "registered [(''https://t.me/+AbC'', trust_channel)] \<and>
   \<not> can_auto_verify trust_channel \<and>
   membership_record
     (mark_user_joined_channel trust_gated_state 7 (channel_key trust_channel))
     7 ''https://t.me/+AbC'' = Some True \<and>
   list_all (\<lambda>answer. trust_channel \<notin> set (fst (snd answer)) \<and>
                      ''https://t.me/+AbC'' \<notin> fst ` set (snd (snd answer)))
     (evaluations
        (mark_user_joined_channel trust_gated_state 7 (channel_key trust_channel))
        7 [failing_gateway, failing_gateway]) \<and>
   snd (button_check trust_gated_state failing_gateway (\<lambda>idx. Some 500) 0 7 ''abc'') =
     [Reply (TrustWarning [trust_channel]),
      SendMedia ''photo'' 7 ''F1'' (Some (NoticeOnly 5)) 500, CreateTask 7 [500] 5 ''abc'',
      Reply SendingFiles, Reply FilesSent] \<and>
   membership_record
     (fst (button_check trust_gated_state failing_gateway (\<lambda>idx. Some 500) 0 7 ''abc''))
     7 ''https://t.me/+AbC'' = Some True \<and>
   list_all (\<lambda>answer. trust_channel \<notin> set (fst (snd answer)) \<and>
                      ''https://t.me/+AbC'' \<notin> fst ` set (snd (snd answer)))
     (evaluations
        (fst (button_check trust_gated_state failing_gateway (\<lambda>idx. Some 500) 0 7 ''abc''))
        7 [failing_gateway, failing_gateway])"
proof -
  let ?s = trust_gated_state
  let ?s1 = "trust_gated_state\<lparr>spam_control :=
               [7 \<mapsto> \<lparr>request_count = 1, last_request = 0, blocked_until = None\<rparr>]\<rparr>"
  let ?s2 = "?s1\<lparr>user_channel_memberships := [7 \<mapsto> Map.empty]\<rparr>"
  have r: "registered (mandatory_channels ?s)"
    by (simp add: registered_def channel_key_def chat_id_or_identifier_def trust_channel_def
        trust_gated_state_def)
  have i: "(''https://t.me/+AbC'', trust_channel) \<in> set (mandatory_channels ?s)"
    by (simp add: trust_gated_state_def)
  have t: "\<not> can_auto_verify trust_channel"
    by (simp add: trust_channel_def)
  have g: "request_gate ?s 7 0 = (?s1, Allowed)"
    by (simp add: request_gate_def is_admin_def spam_gate_def is_temp_blocked_def check_spam_def
        trust_gated_state_def initial_state_def)
  have ev: "check_membership ?s1 failing_gateway 7 = (?s2, False, [trust_channel], [])"
    by (simp add: check_membership_def check_channel_def auto_chat_def
        trust_gated_state_def initial_state_def trust_channel_def)
  note inst = trust_assertion_sticks [OF r i t, of 7 "[failing_gateway, failing_gateway]"]
  from inst have pressed: "\<And>gw tr now code s1 s2 is_member not_joined asked.
            request_gate ?s 7 now = (s1, Allowed) \<Longrightarrow>
            check_membership s1 gw 7 = (s2, is_member, not_joined, asked) \<Longrightarrow>
            trust_channel \<in> set not_joined \<Longrightarrow>
            membership_record (fst (button_check ?s gw tr now 7 code)) 7 ''https://t.me/+AbC'' = Some True \<and>
            list_all (\<lambda>answer. trust_channel \<notin> set (fst (snd answer)) \<and>
                               ''https://t.me/+AbC'' \<notin> fst ` set (snd (snd answer)))
              (evaluations (fst (button_check ?s gw tr now 7 code)) 7 [failing_gateway, failing_gateway])"
    by blast
  have after: "membership_record (fst (button_check ?s failing_gateway (\<lambda>idx. Some 500) 0 7 ''abc'')) 7
                 ''https://t.me/+AbC'' = Some True \<and>
            list_all (\<lambda>answer. trust_channel \<notin> set (fst (snd answer)) \<and>
                               ''https://t.me/+AbC'' \<notin> fst ` set (snd (snd answer)))
              (evaluations (fst (button_check ?s failing_gateway (\<lambda>idx. Some 500) 0 7 ''abc'')) 7
                 [failing_gateway, failing_gateway])"
    by (rule pressed [OF g ev]) simp
  have sent: "snd (button_check ?s failing_gateway (\<lambda>idx. Some 500) 0 7 ''abc'') =
     [Reply (TrustWarning [trust_channel]),
      SendMedia ''photo'' 7 ''F1'' (Some (NoticeOnly 5)) 500, CreateTask 7 [500] 5 ''abc'',
      Reply SendingFiles, Reply FilesSent]"
    using spam_checks_passed [OF g] ev
    by (simp add: button_check_def check_deliver_def mark_user_joined_channel_def
        send_files_to_user_def bundle_of_def photo_def bundle_seconds_def caption_arg_def
        full_caption_def truthy_def trust_gated_state_def initial_state_def trust_channel_def
        asks_def)
  from inst r t after sent show ?thesis
    by (simp add: trust_gated_state_def)
qed

text \<open>
  Claim C10. A user who is let through the spam checks presses \<^emph>\<open>I joined\<close> while the
  evaluation leaves a requirement with \<^verbatim>\<open>can_auto_verify\<close> unmet. The callback answers with
  the refusal and nothing else, delivers nothing, and leaves bundles and download records
  as they were; yet every unmet requirement without \<^verbatim>\<open>can_auto_verify\<close>, whose record was
  not true before, is recorded as true in the state the callback leaves behind.
\<close>

theorem check_marks_trust_despite_refusal:
  assumes "registered (mandatory_channels s)"
    and "request_gate s user now = (s1, Allowed)"
    and "check_membership s1 gw user = (s2, is_member, not_joined, asked)"
    and "failed \<in> set not_joined" "can_auto_verify failed"
  shows "\<exists>s3. button_check s gw tr now user code =
               (s3, asks asked @ [Reply (AutoVerifyFailed (filter can_auto_verify not_joined))]) \<and>
              \<not> list_ex (delivers_to user) (snd (button_check s gw tr now user code)) \<and>
              files s3 = files s \<and> downloads s3 = downloads s \<and>
              (\<forall>e \<in> set (mandatory_channels s).
                 snd e \<in> set not_joined \<and> \<not> can_auto_verify (snd e) \<longrightarrow>
                 membership_record s user (fst e) \<noteq> Some True \<and>
                 membership_record s3 user (fst e) = Some True)"
proof -
  obtain s3 af tb where sp: "split_not_joined s2 user not_joined = (s3, af, tb)"
    by (cases "split_not_joined s2 user not_joined") auto
  note frame = split_not_joined_frame [OF sp]
  have af: "af \<noteq> []" using frame assms(4,5) by (auto simp add: filter_empty_conv)
  have nj: "not_joined \<noteq> []" using assms(4) by auto
  have run: "button_check s gw tr now user code =
               (s3, asks asked @ [Reply (AutoVerifyFailed (filter can_auto_verify not_joined))])"
    using spam_checks_passed [OF assms(2)] assms(3) sp af nj frame by (simp add: button_check_def)
  note gate = request_gate_frame [OF assms(2)]
  note ev = check_membership_frame [OF assms(3)]
  have reg1: "registered (mandatory_channels s1)" using assms(1) gate by simp
  have marks: "\<forall>e \<in> set (mandatory_channels s).
                 snd e \<in> set not_joined \<and> \<not> can_auto_verify (snd e) \<longrightarrow>
                 membership_record s user (fst e) \<noteq> Some True \<and>
                 membership_record s3 user (fst e) = Some True"
  proof (intro ballI impI)
    fix e assume e: "e \<in> set (mandatory_channels s)"
      and u: "snd e \<in> set not_joined \<and> \<not> can_auto_verify (snd e)"
    have "fst e = channel_key (snd e)" using registered_key_of [OF assms(1) e] .
    then have after: "membership_record s3 user (fst e) = Some True"
      using split_not_joined_marks [OF sp, of "snd e"] u by simp
    have before: "membership_record s user (fst e) \<noteq> Some True"
    proof
      assume "membership_record s user (fst e) = Some True"
      then have rec: "membership_record s1 user (fst e) = Some True"
        using gate by (simp add: membership_record_def)
      have e1: "(fst e, snd e) \<in> set (mandatory_channels s1)" using e gate by simp
      have "snd e \<notin> set not_joined"
        using check_membership_trusted [OF reg1 e1 _ rec assms(3)] u by simp
      then show False using u by simp
    qed
    from before after
    show "membership_record s user (fst e) \<noteq> Some True \<and>
          membership_record s3 user (fst e) = Some True" by simp
  qed
  have "\<not> list_ex (delivers_to user) (snd (button_check s gw tr now user code))"
    unfolding run by (simp add: asks_def list_ex_iff)
  then show ?thesis using run frame gate ev marks by auto
qed

lemma str_int_example: "str_int (- 1001) = ''-1001''"
  by code_simp

theorem check_marks_trust_despite_refusal_witness:
  "snd (button_check gated_state failing_gateway (\<lambda>idx. Some 500) 0 7 ''abc'') =
     [AskGateway ''-1001'' (- 1001), Reply (AutoVerifyFailed [auto_channel])] \<and>
   membership_record gated_state 7 ''https://t.me/+AbC'' \<noteq> Some True \<and>
   membership_record (fst (button_check gated_state failing_gateway (\<lambda>idx. Some 500) 0 7 ''abc''))
     7 ''https://t.me/+AbC'' = Some True"
proof -
  let ?s1 = "gated_state\<lparr>spam_control :=
               [7 \<mapsto> \<lparr>request_count = 1, last_request = 0, blocked_until = None\<rparr>]\<rparr>"
  let ?s2 = "?s1\<lparr>user_channel_memberships := [7 \<mapsto> Map.empty]\<rparr>"
  have r: "registered (mandatory_channels gated_state)"
    by (simp add: registered_def gated_state_def channel_key_def chat_id_or_identifier_def
        auto_channel_def trust_channel_def str_int_example)
  have g: "request_gate gated_state 7 0 = (?s1, Allowed)"
    by (simp add: request_gate_def is_admin_def spam_gate_def is_temp_blocked_def check_spam_def
        gated_state_def initial_state_def)
  have ev: "check_membership ?s1 failing_gateway 7 =
              (?s2, False, [auto_channel, trust_channel], [(''-1001'', - 1001)])"
    by (simp add: check_membership_def check_channel_def auto_chat_def chat_id_or_identifier_def
        gated_state_def initial_state_def auto_channel_def trust_channel_def failing_gateway_def)
  have f: "auto_channel \<in> set [auto_channel, trust_channel]" by simp
  have c: "can_auto_verify auto_channel" by (simp add: auto_channel_def)
  from check_marks_trust_despite_refusal [OF r g ev f c, of "\<lambda>idx. Some 500" "''abc''"]
  obtain s3 where run: "button_check gated_state failing_gateway (\<lambda>idx. Some 500) 0 7 ''abc'' =
        (s3, asks [(''-1001'', - 1001)] @
             [Reply (AutoVerifyFailed (filter can_auto_verify [auto_channel, trust_channel]))])"
    and marks: "\<forall>e \<in> set (mandatory_channels gated_state).
                 snd e \<in> set [auto_channel, trust_channel] \<and> \<not> can_auto_verify (snd e) \<longrightarrow>
                 membership_record gated_state 7 (fst e) \<noteq> Some True \<and>
                 membership_record s3 7 (fst e) = Some True"
    by blast
  have "membership_record gated_state 7 ''https://t.me/+AbC'' \<noteq> Some True \<and>
        membership_record s3 7 ''https://t.me/+AbC'' = Some True"
    using marks by (simp add: gated_state_def trust_channel_def)
  then show ?thesis
    using run by (simp add: asks_def auto_channel_def trust_channel_def)
qed

section \<open>Properties of delivery, of the handlers and of the wizard\<close>

lemma py_int_examples:
  "py_int ''5'' = Some 5" "py_int ''30'' = Some 30" "py_int ''4'' = Some 4"
  "py_int ''31'' = Some 31" "py_int ''abc'' = None" "py_int ''10'' = Some 10"
  by code_simp+

lemma py_int_separator: "py_int [CHR ''7'', char_of (31::nat)] = None"
  by code_simp

lemma py_digits_chars:
  "py_digits acc cs = Some n \<Longrightarrow> list_all (\<lambda>c. py_isdigit c \<or> c = CHR ''_'') cs"
  by (induction acc cs rule: py_digits.induct) (auto split: if_splits)

lemma py_unsigned_chars:
  assumes "py_unsigned t = Some n"
  shows "list_all numeric_char t \<and> list_ex py_isdigit t"
proof (cases t)
  case Nil
  then show ?thesis using assms by (simp add: py_unsigned_def)
next
  case (Cons c cs)
  then have c: "py_isdigit c" and d: "py_digits (digit_value c) cs = Some n"
    using assms by (auto simp add: py_unsigned_def split: if_splits)
  have "list_all (\<lambda>c. py_isdigit c \<or> c = CHR ''_'') cs" using py_digits_chars [OF d] .
  then have "list_all numeric_char cs"
    by (auto simp add: list_all_iff numeric_char_def)
  then show ?thesis using c Cons by (simp add: numeric_char_def)
qed

lemma dropWhile_rest:
  "x \<in> set xs \<Longrightarrow> x \<in> set (dropWhile P xs) \<or> P x"
  by (induction xs) auto

lemma py_strip_chars:
  "list_all numeric_char (py_strip t) \<Longrightarrow> list_all numeric_char t"
proof -
  assume a: "list_all numeric_char (py_strip t)"
  have "\<And>x. x \<in> set t \<Longrightarrow> numeric_char x"
  proof -
    fix x assume "x \<in> set t"
    then have "x \<in> set (dropWhile py_isspace t) \<or> py_isspace x"
      by (rule dropWhile_rest)
    moreover have "x \<in> set (dropWhile py_isspace t) \<Longrightarrow> x \<in> set (py_strip t) \<or> py_isspace x"
      using dropWhile_rest [of x "rev (dropWhile py_isspace t)" py_isspace]
      by (simp add: py_strip_def)
    ultimately have "x \<in> set (py_strip t) \<or> py_isspace x" by blast
    then show "numeric_char x"
      using a by (auto simp add: list_all_iff numeric_char_def)
  qed
  then show ?thesis by (simp add: list_all_iff)
qed

lemma py_strip_subset: "set (py_strip t) \<subseteq> set t"
proof -
  have "set (py_strip t) \<subseteq> set (dropWhile py_isspace t)"
    using set_dropWhileD [of _ py_isspace "rev (dropWhile py_isspace t)"]
    by (auto simp add: py_strip_def)
  then show ?thesis using set_dropWhileD [of _ py_isspace t] by blast
qed

lemma py_int_numeric:
  assumes "py_int t = Some n"
  shows "numeric_text t"
proof -
  obtain c cs where st: "py_strip t = c # cs"
    using assms by (cases "py_strip t") (auto simp add: py_int_def)
  have body: "list_all numeric_char (c # cs) \<and> list_ex py_isdigit (c # cs)"
  proof (cases "c = CHR ''-'' \<or> c = CHR ''+''")
    case True
    then obtain k where "py_unsigned cs = Some k"
      using assms st by (auto simp add: py_int_def split: if_splits)
    then show ?thesis using py_unsigned_chars [of cs k] True by (auto simp add: numeric_char_def)
  next
    case False
    then obtain k where "py_unsigned (c # cs) = Some k"
      using assms st by (auto simp add: py_int_def split: if_splits)
    then show ?thesis using py_unsigned_chars [of "c # cs" k] by simp
  qed
  then have "list_all numeric_char t" using py_strip_chars [of t] st by simp
  moreover have "list_ex py_isdigit t"
    using body py_strip_subset [of t] st by (auto simp add: list_ex_iff)
  ultimately show ?thesis by (simp add: numeric_text_def)
qed

lemma py_digits_all_digits:
  "list_all py_isdigit ds \<Longrightarrow>
   py_digits acc ds = Some (foldl (\<lambda>a c. 10 * a + digit_value c) acc ds)"
  by (induction acc ds rule: py_digits.induct) auto

lemma str_nat_digits:
  "list_all py_isdigit (str_nat n) \<and> str_nat n \<noteq> [] \<and>
   foldl (\<lambda>a c. 10 * a + digit_value c) 0 (str_nat n) = n"
proof (induction n rule: str_nat.induct)
  case (1 n)
  show ?case
  proof (cases "n < 10")
    case True
    then show ?thesis
      by (subst (1 2 3) str_nat.simps) (simp add: py_isdigit_def digit_value_def)
  next
    case False
    have d: "n mod 10 < 10" by simp
    have "py_isdigit (char_of (48 + n mod 10)) \<and> digit_value (char_of (48 + n mod 10)) = n mod 10"
      using d by (simp add: py_isdigit_def digit_value_def)
    then show ?thesis
      using "1.IH" [OF False] False
      by (subst (1 2 3) str_nat.simps) simp
  qed
qed

lemma digit_not_space: "py_isdigit c \<Longrightarrow> \<not> py_isspace c"
  by (auto simp add: py_isdigit_def py_isspace_def)

lemma py_strip_no_blanks:
  "t \<noteq> [] \<Longrightarrow> \<not> py_isspace (hd t) \<Longrightarrow> \<not> py_isspace (last t) \<Longrightarrow> py_strip t = t"
proof -
  assume ne: "t \<noteq> []" and h: "\<not> py_isspace (hd t)" and l: "\<not> py_isspace (last t)"
  have a: "dropWhile py_isspace t = t" using h ne by (cases t) auto
  have "dropWhile py_isspace (rev t) = rev t"
    using l ne by (cases "rev t") (auto simp add: last_rev [symmetric] simp del: last_rev)
  then show ?thesis using a by (simp add: py_strip_def)
qed

lemma py_unsigned_str_nat: "py_unsigned (str_nat n) = Some n"
proof -
  note d = str_nat_digits [of n]
  obtain c cs where s: "str_nat n = c # cs" using d by (cases "str_nat n") auto
  have "py_digits (digit_value c) cs = Some (foldl (\<lambda>a c. 10 * a + digit_value c) (digit_value c) cs)"
    using d s by (intro py_digits_all_digits) simp
  then show ?thesis using d s by (simp add: py_unsigned_def)
qed

lemma py_int_str_int: "py_int (str_int n) = Some n"
proof -
  let ?k = "nat \<bar>n\<bar>"
  note d = str_nat_digits [of ?k]
  obtain c cs where s: "str_nat ?k = c # cs" using d by (cases "str_nat ?k") auto
  have c: "py_isdigit c" using d s by simp
  have lastd: "py_isdigit (last (str_nat ?k))"
    using d by (simp add: list_all_iff)
  have csign: "c \<noteq> CHR ''-'' \<and> c \<noteq> CHR ''+''"
    using c by (auto simp add: py_isdigit_def)
  show ?thesis
  proof (cases "n < 0")
    case True
    then have si: "str_int n = CHR ''-'' # str_nat ?k" by (simp add: str_int_def)
    have "py_strip (str_int n) = str_int n"
      using si d lastd digit_not_space
      by (intro py_strip_no_blanks) (auto simp add: py_isspace_def)
    then show ?thesis
      using si True py_unsigned_str_nat [of ?k] by (simp add: py_int_def)
  next
    case False
    then have si: "str_int n = str_nat ?k" by (simp add: str_int_def)
    have "py_strip (str_int n) = str_int n"
      using si s c lastd digit_not_space
      by (intro py_strip_no_blanks) auto
    then show ?thesis
      using si s csign False py_unsigned_str_nat [of ?k] by (simp add: py_int_def)
  qed
qed


lemma send_loop_sent:
  "fst (send_loop tr user cap secs idx fs) =
     map (\<lambda>p. SendMedia (file_type (snd p)) user (telegram_file_id (snd p))
                 (caption_arg cap secs (fst p)) (the (tr (fst p))))
         (sendable tr idx fs)"
proof (induction fs arbitrary: idx)
  case Nil
  show ?case by (simp add: sendable_def)
next
  case (Cons f fs)
  show ?case
    using Cons.IH [of "Suc idx"]
    by (auto simp add: sendable_def is_media_def enumerate_simps split: option.splits prod.splits)
qed

lemma caption_arg_rule:
  "caption_arg cap secs idx =
     (if idx = 0 then
        Some (case cap of
                Some t \<Rightarrow> if t \<noteq> [] then CaptionAndNotice t secs else NoticeOnly secs
              | None \<Rightarrow> NoticeOnly secs)
      else if truthy cap then None else Some (NoticeOnly secs))"
  by (auto simp add: caption_arg_def full_caption_def truthy_def split: option.splits)

lemma send_files_to_user_effects:
  "\<exists>rest. snd (send_files_to_user s tr now user fg code) =
      fst (send_loop tr user (caption fg) (bundle_seconds fg) 0 (group_files fg)) @ rest \<and>
      \<not> list_ex (delivers_to user) rest"
  by (auto simp add: send_files_to_user_def Let_def split: prod.splits)

text \<open>
  Claim C6, as amended. In every delivery the media go out in the order of the bundle
  (items that are neither photo nor video are passed over, and the first send that raises
  ends the loop). The item at position 0 carries the bundle's caption, when there is one,
  followed by the expiry notice, and the notice alone otherwise. An item at a later
  position carries the notice only when the bundle has no caption; when the bundle has a
  caption it is sent with no caption argument at all. Nothing else the delivery does puts
  media into the chat.
\<close>

theorem delivery_order_and_captions:
  "\<exists>rest. snd (send_files_to_user s tr now user fg code) =
      map (\<lambda>p. SendMedia (file_type (snd p)) user (telegram_file_id (snd p))
                  (if fst p = 0 then
                     Some (case caption fg of
                             Some t \<Rightarrow> if t \<noteq> [] then CaptionAndNotice t (bundle_seconds fg)
                                       else NoticeOnly (bundle_seconds fg)
                           | None \<Rightarrow> NoticeOnly (bundle_seconds fg))
                   else if truthy (caption fg) then None
                   else Some (NoticeOnly (bundle_seconds fg)))
                  (the (tr (fst p))))
          (sendable tr 0 (group_files fg)) @ rest \<and>
      \<not> list_ex (delivers_to user) rest"
  using send_files_to_user_effects [of s tr now user fg code]
  by (simp add: send_loop_sent caption_arg_rule)

text \<open>
  Claim C6 as stated fails: in a bundle of two photos with the caption \<open>''hi''\<close> the
  second photo is sent without any caption, so without the expiry notice.
\<close>

theorem notice_on_every_item_counterexample:
  "snd (send_files_to_user (initial_state 1) (\<lambda>idx. Some (500 + int idx)) 0 7
          (bundle_of [photo ''F1'', photo ''F2''] (Some ''hi'')) ''abc'') =
     [SendMedia ''photo'' 7 ''F1'' (Some (CaptionAndNotice ''hi'' 5)) 500,
      SendMedia ''photo'' 7 ''F2'' None 501,
      CreateTask 7 [500, 501] 5 ''abc'']"
  by (simp add: send_files_to_user_def bundle_of_def photo_def bundle_seconds_def caption_arg_def
      full_caption_def truthy_def)

text \<open>
  Claim C4 fails on the code. A bundle of two photos is delivered; the first send
  succeeds with message id 500 and the second raises. The handler of line 621 reports the
  error, but no deletion task is created for message 500 (and no download is recorded),
  although one media item was sent.
\<close>

theorem partial_send_leaves_media:
  "send_files_to_user (initial_state 1) (\<lambda>idx. if idx = 0 then Some 500 else None) 0 7
     (bundle_of [photo ''F1'', photo ''F2''] None) ''abc'' =
     (initial_state 1,
      [SendMedia ''photo'' 7 ''F1'' (Some (NoticeOnly 5)) 500, SendMessage 7 SendFailed])"
  by (simp add: send_files_to_user_def bundle_of_def photo_def bundle_seconds_def caption_arg_def
      full_caption_def truthy_def)

text \<open>
  Claim C1 fails on the code. For a user whose \<^verbatim>\<open>is_blocked\<close> flag is set, \<^verbatim>\<open>/start\<close> with
  a code is refused at line 444, but the \<^verbatim>\<open>redownload_\<close> and \<^verbatim>\<open>check_\<close> callbacks never
  read the flag and send the bundle.
\<close>

theorem blocked_user_still_served:
  "snd (start_command blocked_state failing_gateway (\<lambda>idx. Some 500) 0
          \<lparr>tg_id = 7, tg_username = Some ''u'', tg_first_name = Some ''U''\<rparr> [''abc'']) =
     [Reply BlockedByAdmin] \<and>
   snd (button_redownload blocked_state failing_gateway (\<lambda>idx. Some 500) 0 7 ''abc'') =
     [SendMedia ''photo'' 7 ''F1'' (Some (NoticeOnly 5)) 500, CreateTask 7 [500] 5 ''abc'',
      Reply Resending] \<and>
   snd (button_check blocked_state failing_gateway (\<lambda>idx. Some 500) 0 7 ''abc'') =
     [SendMedia ''photo'' 7 ''F1'' (Some (NoticeOnly 5)) 500, CreateTask 7 [500] 5 ''abc'',
      Reply SendingFiles, Reply FilesSent]"
  by (simp add: start_command_def button_redownload_def button_check_def check_deliver_def
      spam_checks_def is_admin_def is_temp_blocked_def check_spam_def
      check_membership_def asks_def
      send_files_to_user_def bundle_of_def photo_def bundle_seconds_def caption_arg_def
      full_caption_def truthy_def blocked_state_def initial_state_def)

text \<open>
  Claim C3 fails on the code. Line 1474 stores the new bundle under the token without
  looking it up first: when the token drawn is the code of a live bundle, that bundle is
  replaced.
\<close>

theorem colliding_token_overwrites:
  "files (initial_state 1\<lparr>files := [''q1w2e3r4'' \<mapsto> bundle_of [photo ''F1''] (Some ''old'')]\<rparr>)
     ''q1w2e3r4'' = Some (bundle_of [photo ''F1''] (Some ''old'')) \<and>
   files (fst (handle_text_delete_time
     (initial_state 1\<lparr>files := [''q1w2e3r4'' \<mapsto> bundle_of [photo ''F1''] (Some ''old'')]\<rparr>)
     \<lparr>awaiting = Some ''delete_time'', temp_files = Some [photo ''F2''], pending_caption = None\<rparr>
     60000000 1 ''10'' ''q1w2e3r4'' (Some ''bot''))) ''q1w2e3r4'' =
     Some \<lparr>group_files = [photo ''F2''], caption = None, delete_seconds = Some 10,
           created_at = 60000000, admin_id = 1\<rparr>"
  by (simp add: handle_text_delete_time_def py_int_examples initial_state_def)


text \<open>
  Claim C5. A bundle of three photos or videos with a delay of 5 seconds is delivered and
  every send succeeds. Then three media messages are sent, exactly one download record is
  appended, and one deletion task is created, for the three message ids, the delay 5 and
  the bundle's code. Whenever that task starts (no earlier than the delivery), it wakes
  up no earlier than 5 seconds after the delivery and then makes exactly three
  \<^verbatim>\<open>delete_message\<close> calls, one per message, followed by exactly one prompt carrying the
  re-download button for the code.
\<close>

theorem ephemeral_delivery_of_three:
  assumes "group_files fg = [f1, f2, f3]" "is_media f1" "is_media f2" "is_media f3"
    and "delete_seconds fg = Some 5"
    and "tr 0 = Some m1" "tr 1 = Some m2" "tr 2 = Some m3"
    and "code \<noteq> []" and "now \<le> started"
  shows "\<exists>sent. send_files_to_user s tr now user fg code =
            (s\<lparr>downloads := downloads s @
                 [\<lparr>file_code = code, user_id = user, downloaded_at = now\<rparr>]\<rparr>,
             sent @ [CreateTask user [m1, m2, m3] 5 code]) \<and>
          length sent = 3 \<and> list_all (delivers_to user) sent \<and>
          now + 5 * second \<le>
            fst (schedule_message_deletion_and_send_buttons started late user [m1, m2, m3] 5 code) \<and>
          snd (schedule_message_deletion_and_send_buttons started late user [m1, m2, m3] 5 code) =
            [DeleteMessage user m1, DeleteMessage user m2, DeleteMessage user m3,
             SendPrompt user (Some code)]"
proof -
  have t1: "tr (Suc 0) = Some m2" using assms(7) by simp
  have t2: "tr (Suc (Suc 0)) = Some m3" using assms(8) by (simp add: numeral_2_eq_2)
  have loop: "send_loop tr user (caption fg) 5 0 [f1, f2, f3] =
      ([SendMedia (file_type f1) user (telegram_file_id f1) (caption_arg (caption fg) 5 0) m1,
        SendMedia (file_type f2) user (telegram_file_id f2) (caption_arg (caption fg) 5 (Suc 0)) m2,
        SendMedia (file_type f3) user (telegram_file_id f3) (caption_arg (caption fg) 5 (Suc (Suc 0))) m3],
       [m1, m2, m3], False)"
    using assms(2,3,4,6) t1 t2 by (simp add: is_media_def)
  have run: "send_files_to_user s tr now user fg code =
      (s\<lparr>downloads := downloads s @ [\<lparr>file_code = code, user_id = user, downloaded_at = now\<rparr>]\<rparr>,
       [SendMedia (file_type f1) user (telegram_file_id f1) (caption_arg (caption fg) 5 0) m1,
        SendMedia (file_type f2) user (telegram_file_id f2) (caption_arg (caption fg) 5 (Suc 0)) m2,
        SendMedia (file_type f3) user (telegram_file_id f3) (caption_arg (caption fg) 5 (Suc (Suc 0))) m3]
       @ [CreateTask user [m1, m2, m3] 5 code])"
    by (simp add: send_files_to_user_def bundle_seconds_def assms(1,5) loop del: send_loop.simps)
  have woke: "now + 5 * second \<le>
      fst (schedule_message_deletion_and_send_buttons started late user [m1, m2, m3] 5 code)"
    using assms(10) by (simp add: schedule_message_deletion_and_send_buttons_def)
  have calls: "snd (schedule_message_deletion_and_send_buttons started late user [m1, m2, m3] 5 code) =
      [DeleteMessage user m1, DeleteMessage user m2, DeleteMessage user m3, SendPrompt user (Some code)]"
    using assms(9) by (simp add: schedule_message_deletion_and_send_buttons_def)
  show ?thesis
    unfolding run using woke calls by (intro exI conjI) (rule refl, simp_all)
qed

theorem ephemeral_delivery_of_three_witness:
  "send_files_to_user (initial_state 1) (\<lambda>idx. Some (500 + int idx)) 1000000 7
     (bundle_of [photo ''F1'', photo ''F2'', photo ''F3''] None) ''abc'' =
     ((initial_state 1)\<lparr>downloads :=
         [\<lparr>file_code = ''abc'', user_id = 7, downloaded_at = 1000000\<rparr>]\<rparr>,
      [SendMedia ''photo'' 7 ''F1'' (Some (NoticeOnly 5)) 500,
       SendMedia ''photo'' 7 ''F2'' (Some (NoticeOnly 5)) 501,
       SendMedia ''photo'' 7 ''F3'' (Some (NoticeOnly 5)) 502,
       CreateTask 7 [500, 501, 502] 5 ''abc'']) \<and>
   schedule_message_deletion_and_send_buttons 1000200 3 7 [500, 501, 502] 5 ''abc'' =
     (6000203, [DeleteMessage 7 500, DeleteMessage 7 501, DeleteMessage 7 502,
                SendPrompt 7 (Some ''abc'')])"
proof -
  let ?fg = "bundle_of [photo ''F1'', photo ''F2'', photo ''F3''] None"
  let ?tr = "\<lambda>idx. Some (500 + int idx)"
  have "\<exists>sent. send_files_to_user (initial_state 1) ?tr 1000000 7 ?fg ''abc'' =
            ((initial_state 1)\<lparr>downloads := downloads (initial_state 1) @
                 [\<lparr>file_code = ''abc'', user_id = 7, downloaded_at = 1000000\<rparr>]\<rparr>,
             sent @ [CreateTask 7 [500, 501, 502] 5 ''abc'']) \<and>
          length sent = 3 \<and> list_all (delivers_to 7) sent \<and>
          1000000 + 5 * second \<le>
            fst (schedule_message_deletion_and_send_buttons 1000200 3 7 [500, 501, 502] 5 ''abc'') \<and>
          snd (schedule_message_deletion_and_send_buttons 1000200 3 7 [500, 501, 502] 5 ''abc'') =
            [DeleteMessage 7 500, DeleteMessage 7 501, DeleteMessage 7 502,
             SendPrompt 7 (Some ''abc'')]"
    by (rule ephemeral_delivery_of_three [where ?f1.0 = "photo ''F1''" and ?f2.0 = "photo ''F2''"
          and ?f3.0 = "photo ''F3''"])
       (simp_all add: bundle_of_def is_media_def photo_def)
  then have calls: "snd (schedule_message_deletion_and_send_buttons 1000200 3 7 [500, 501, 502] 5 ''abc'') =
            [DeleteMessage 7 500, DeleteMessage 7 501, DeleteMessage 7 502,
             SendPrompt 7 (Some ''abc'')]"
    by blast
  have "fst (schedule_message_deletion_and_send_buttons 1000200 3 7 [500, 501, 502] 5 ''abc'') = 6000203"
    by (simp add: schedule_message_deletion_and_send_buttons_def second_def)
  then have task: "schedule_message_deletion_and_send_buttons 1000200 3 7 [500, 501, 502] 5 ''abc'' =
     (6000203, [DeleteMessage 7 500, DeleteMessage 7 501, DeleteMessage 7 502,
                SendPrompt 7 (Some ''abc'')])"
    using calls by (simp add: prod_eq_iff)
  have "send_files_to_user (initial_state 1) ?tr 1000000 7 ?fg ''abc'' =
     ((initial_state 1)\<lparr>downloads :=
         [\<lparr>file_code = ''abc'', user_id = 7, downloaded_at = 1000000\<rparr>]\<rparr>,
      [SendMedia ''photo'' 7 ''F1'' (Some (NoticeOnly 5)) 500,
       SendMedia ''photo'' 7 ''F2'' (Some (NoticeOnly 5)) 501,
       SendMedia ''photo'' 7 ''F3'' (Some (NoticeOnly 5)) 502,
       CreateTask 7 [500, 501, 502] 5 ''abc''])"
    by (simp add: send_files_to_user_def bundle_of_def photo_def bundle_seconds_def caption_arg_def
        full_caption_def truthy_def initial_state_def)
  then show ?thesis using task by simp
qed

text \<open>
  Claim C8. In the step \<^verbatim>\<open>delete_time\<close> with a non-empty list of pending files, the texts
  \<open>''5''\<close> and \<open>''30''\<close>, and the decimal text of every number from 5 to 30, store a
  bundle with that delay, the pending files and the pending caption (the conversation is
  then cleared, unless \<^verbatim>\<open>get_me\<close> raises). The texts \<open>''4''\<close> and \<open>''31''\<close>, and the
  decimal text of every number below 5 or above 30, are answered that the number is out
  of range; \<open>''abc''\<close>, and every text that has no digit or has a character other than
  digits, underscores, signs and blanks, is answered that it is not a number. Whatever
  the text, either a bundle with a delay from 5 to 30 is stored, or one of the two
  validation messages is sent and the bot's state and the conversation, step and
  payload, are as they were.
\<close>

theorem delete_delay_bounds:
  assumes "awaiting ud = Some ''delete_time''" and "temp_files ud = Some (f # fs)"
  shows "handle_text s ud now user ''5'' token me =
           Some (s\<lparr>files := (files s)(token \<mapsto>
                     \<lparr>group_files = f # fs, caption = pending_caption ud,
                      delete_seconds = Some 5, created_at = now, admin_id = user\<rparr>)\<rparr>,
                 case me of None \<Rightarrow> (ud, [])
                 | Some bot_username \<Rightarrow> (no_user_data, [Reply (LinkCreated bot_username token)])) \<and>
         handle_text s ud now user ''30'' token me =
           Some (s\<lparr>files := (files s)(token \<mapsto>
                     \<lparr>group_files = f # fs, caption = pending_caption ud,
                      delete_seconds = Some 30, created_at = now, admin_id = user\<rparr>)\<rparr>,
                 case me of None \<Rightarrow> (ud, [])
                 | Some bot_username \<Rightarrow> (no_user_data, [Reply (LinkCreated bot_username token)])) \<and>
         handle_text s ud now user ''4'' token me = Some (s, ud, [Reply OutOfRange]) \<and>
         handle_text s ud now user ''31'' token me = Some (s, ud, [Reply OutOfRange]) \<and>
         handle_text s ud now user ''abc'' token me = Some (s, ud, [Reply InvalidNumber]) \<and>
         (\<forall>n. 5 \<le> n \<and> n \<le> 30 \<longrightarrow>
            handle_text s ud now user (str_int n) token me =
           Some (s\<lparr>files := (files s)(token \<mapsto>
                     \<lparr>group_files = f # fs, caption = pending_caption ud,
                      delete_seconds = Some n, created_at = now, admin_id = user\<rparr>)\<rparr>,
                 case me of None \<Rightarrow> (ud, [])
                 | Some bot_username \<Rightarrow> (no_user_data, [Reply (LinkCreated bot_username token)]))) \<and>
         (\<forall>n. n < 5 \<or> 30 < n \<longrightarrow>
            handle_text s ud now user (str_int n) token me = Some (s, ud, [Reply OutOfRange])) \<and>
         (\<forall>text. \<not> numeric_text text \<longrightarrow>
            handle_text s ud now user text token me = Some (s, ud, [Reply InvalidNumber])) \<and>
         (\<forall>text.
            (\<exists>n. 5 \<le> n \<and> n \<le> 30 \<and> py_int text = Some n \<and>
               handle_text s ud now user text token me =
           Some (s\<lparr>files := (files s)(token \<mapsto>
                     \<lparr>group_files = f # fs, caption = pending_caption ud,
                      delete_seconds = Some n, created_at = now, admin_id = user\<rparr>)\<rparr>,
                 case me of None \<Rightarrow> (ud, [])
                 | Some bot_username \<Rightarrow> (no_user_data, [Reply (LinkCreated bot_username token)]))) \<or>
            handle_text s ud now user text token me = Some (s, ud, [Reply InvalidNumber]) \<or>
            handle_text s ud now user text token me = Some (s, ud, [Reply OutOfRange]))"
proof -
  have run: "\<And>text. handle_text s ud now user text token me =
      Some (case py_int text of
              None \<Rightarrow> (s, ud, [Reply InvalidNumber])
            | Some secs \<Rightarrow>
                if secs < 5 \<or> secs > 30 then (s, ud, [Reply OutOfRange])
                else
                  (s\<lparr>files := (files s)(token \<mapsto>
                       \<lparr>group_files = f # fs, caption = pending_caption ud,
                        delete_seconds = Some secs, created_at = now, admin_id = user\<rparr>)\<rparr>,
                   case me of None \<Rightarrow> (ud, [])
                   | Some bot_username \<Rightarrow>
                       (no_user_data, [Reply (LinkCreated bot_username token)])))"
    using assms
    by (simp add: handle_text_def handle_text_delete_time_def split: option.splits)
  have bad: "\<not> numeric_text t \<Longrightarrow> py_int t = None" for t
    using py_int_numeric [of t] by (cases "py_int t") auto
  show ?thesis
  proof (intro conjI allI impI)
    fix t
    show "(\<exists>n. 5 \<le> n \<and> n \<le> 30 \<and> py_int t = Some n \<and>
               handle_text s ud now user t token me =
           Some (s\<lparr>files := (files s)(token \<mapsto>
                     \<lparr>group_files = f # fs, caption = pending_caption ud,
                      delete_seconds = Some n, created_at = now, admin_id = user\<rparr>)\<rparr>,
                 case me of None \<Rightarrow> (ud, [])
                 | Some bot_username \<Rightarrow> (no_user_data, [Reply (LinkCreated bot_username token)]))) \<or>
            handle_text s ud now user t token me = Some (s, ud, [Reply InvalidNumber]) \<or>
            handle_text s ud now user t token me = Some (s, ud, [Reply OutOfRange])"
      unfolding run by (cases "py_int t") auto
  qed (auto simp add: run py_int_examples py_int_str_int bad)
qed

theorem delete_delay_bounds_witness:
  "handle_text (initial_state 1)
     \<lparr>awaiting = Some ''delete_time'', temp_files = Some [photo ''F1''],
      pending_caption = Some ''hi''\<rparr> 0 1 ''5'' ''Zx81_aQ-'' (Some ''bot'') =
     Some ((initial_state 1)\<lparr>files := [''Zx81_aQ-'' \<mapsto>
              \<lparr>group_files = [photo ''F1''], caption = Some ''hi'', delete_seconds = Some 5,
               created_at = 0, admin_id = 1\<rparr>]\<rparr>,
           no_user_data, [Reply (LinkCreated ''bot'' ''Zx81_aQ-'')]) \<and>
   handle_text (initial_state 1)
     \<lparr>awaiting = Some ''delete_time'', temp_files = Some [photo ''F1''],
      pending_caption = Some ''hi''\<rparr> 0 1 ''31'' ''Zx81_aQ-'' (Some ''bot'') =
     Some (initial_state 1,
           \<lparr>awaiting = Some ''delete_time'', temp_files = Some [photo ''F1''],
            pending_caption = Some ''hi''\<rparr>, [Reply OutOfRange]) \<and>
   handle_text (initial_state 1)
     \<lparr>awaiting = Some ''delete_time'', temp_files = Some [photo ''F1''],
      pending_caption = Some ''hi''\<rparr> 0 1 ''ten seconds'' ''Zx81_aQ-'' (Some ''bot'') =
     Some (initial_state 1,
           \<lparr>awaiting = Some ''delete_time'', temp_files = Some [photo ''F1''],
            pending_caption = Some ''hi''\<rparr>, [Reply InvalidNumber])"
proof -
  have n: "\<not> numeric_text ''ten seconds''"
    by (simp add: numeric_text_def numeric_char_def py_isdigit_def py_isspace_def)
  show ?thesis
    using n delete_delay_bounds [of "\<lparr>awaiting = Some ''delete_time'', temp_files = Some [photo ''F1''],
      pending_caption = Some ''hi''\<rparr>" "photo ''F1''" "[]" "initial_state 1" 0 1 "''Zx81_aQ-''" "Some ''bot''"]
    by (simp add: initial_state_def)
qed

section \<open>Further properties\<close>

text \<open>
  \<^verbatim>\<open>/start\<close> from a user whose \<^verbatim>\<open>is_blocked\<close> flag is set answers with the block notice
  only: nothing is delivered, whatever the arguments, and the state is unchanged.
\<close>

theorem blocked_user_start_refused:
  assumes "users s (tg_id user) = Some u" and "is_blocked u"
  shows "start_command s gw tr now user args = (s, [Reply BlockedByAdmin])"
  using assms by (simp add: start_command_def)

theorem blocked_user_start_refused_witness:
  "start_command blocked_state failing_gateway (\<lambda>idx. Some 500) 0
     \<lparr>tg_id = 7, tg_username = Some ''u'', tg_first_name = Some ''U''\<rparr> [''abc''] =
   (blocked_state, [Reply BlockedByAdmin])"
  by (rule blocked_user_start_refused
        [where u = "\<lparr>username = ''u'', first_name = ''U'', is_blocked = True, last_seen = 0\<rparr>"])
     (simp_all add: blocked_state_def initial_state_def)

text \<open>
  Once an admin has deleted a live code with \<^verbatim>\<open>delfile_\<close>, the code is no longer a key of
  \<^verbatim>\<open>self.files\<close>, and a request for it that passes the spam checks is answered that the
  link does not exist.
\<close>

theorem deleted_code_not_found:
  assumes "is_admin s admin" and "files s code = Some fg"
    and "request_gate (fst (button_delfile s admin code)) user now = (s1, Allowed)"
  shows "files (fst (button_delfile s admin code)) code = None \<and>
         handle_file_access (fst (button_delfile s admin code)) gw tr now user code =
           (s1, [Reply LinkMissing])"
proof -
  have gone: "files (fst (button_delfile s admin code)) code = None"
    using assms(1,2) by (simp add: button_delfile_def)
  have "files s1 code = None"
    using assms(3) gone by (auto simp add: request_gate_def split: if_splits prod.splits)
  then show ?thesis
    using spam_checks_passed [OF assms(3)] gone by (simp add: handle_file_access_def)
qed

theorem deleted_code_not_found_witness:
  "files (fst (button_delfile blocked_state 1 ''abc'')) ''abc'' = None \<and>
   snd (handle_file_access (fst (button_delfile blocked_state 1 ''abc'')) failing_gateway
          (\<lambda>idx. Some 500) 0 1 ''abc'') = [Reply LinkMissing]"
proof -
  let ?s = "fst (button_delfile blocked_state 1 ''abc'')"
  have a: "is_admin blocked_state 1"
    by (simp add: is_admin_def blocked_state_def initial_state_def)
  have f: "files blocked_state ''abc'' = Some (bundle_of [photo ''F1''] None)"
    by (simp add: blocked_state_def)
  have "is_admin ?s 1"
    by (simp add: is_admin_def button_delfile_def blocked_state_def initial_state_def)
  then have g: "request_gate ?s 1 0 = (?s, Allowed)"
    by (simp add: request_gate_def)
  from deleted_code_not_found [OF a f g, of failing_gateway "\<lambda>idx. Some 500"]
  show ?thesis by simp
qed

lemma send_loop_all_sent:
  assumes "list_all is_media fs" and "\<forall>i<length fs. tr (idx + i) \<noteq> None"
  shows "\<exists>sent. send_loop tr user cap secs idx fs =
           (sent, map (\<lambda>i. the (tr i)) [idx ..< idx + length fs], False) \<and>
           length sent = length fs \<and> list_all (delivers_to user) sent"
  using assms
proof (induction fs arbitrary: idx)
  case Nil
  then show ?case by simp
next
  case (Cons f fs)
  have media: "file_type f = ''photo'' \<or> file_type f = ''video''"
    using Cons.prems(1) by (simp add: is_media_def)
  obtain mid where mid: "tr idx = Some mid"
    using Cons.prems(2) [rule_format, of 0] by auto
  have "\<forall>i<length fs. tr (Suc idx + i) \<noteq> None"
  proof (intro allI impI)
    fix i assume "i < length fs"
    then have "Suc i < length (f # fs)" by simp
    then have "tr (idx + Suc i) \<noteq> None" using Cons.prems(2) by blast
    then show "tr (Suc idx + i) \<noteq> None" by simp
  qed
  moreover have "list_all is_media fs" using Cons.prems(1) by simp
  ultimately obtain sent where rest:
    "send_loop tr user cap secs (Suc idx) fs =
       (sent, map (\<lambda>i. the (tr i)) [Suc idx ..< Suc idx + length fs], False)"
    "length sent = length fs" "list_all (delivers_to user) sent"
    using Cons.IH [of "Suc idx"] by blast
  have upt: "[idx ..< idx + length (f # fs)] = idx # [Suc idx ..< Suc idx + length fs]"
    by (subst upt_rec) (simp del: upt_Suc)
  show ?case
    unfolding upt using media mid rest by (auto simp del: upt_Suc)
qed

text \<open>
  When every item of a non-empty bundle is a photo or a video and no send raises, one
  message per item is sent, one download record is appended, and one deletion task is
  created for all the message ids, with the bundle's delay and code.
\<close>

theorem all_sent_schedules_deletion:
  assumes "list_all is_media (group_files fg)" and "group_files fg \<noteq> []"
    and "\<forall>i<length (group_files fg). tr i \<noteq> None"
  shows "\<exists>sent. send_files_to_user s tr now user fg code =
           (s\<lparr>downloads := downloads s @
                [\<lparr>file_code = code, user_id = user, downloaded_at = now\<rparr>]\<rparr>,
            sent @ [CreateTask user (map (\<lambda>i. the (tr i)) [0 ..< length (group_files fg)])
                      (bundle_seconds fg) code]) \<and>
           length sent = length (group_files fg) \<and> list_all (delivers_to user) sent"
proof -
  from send_loop_all_sent [where idx = 0 and fs = "group_files fg" and tr = tr
      and user = user and cap = "caption fg" and secs = "bundle_seconds fg"] assms(1,3)
  obtain sent where loop:
    "send_loop tr user (caption fg) (bundle_seconds fg) 0 (group_files fg) =
       (sent, map (\<lambda>i. the (tr i)) [0 ..< length (group_files fg)], False)"
    "length sent = length (group_files fg)" "list_all (delivers_to user) sent"
    by auto
  show ?thesis
    using loop assms(2) by (simp add: send_files_to_user_def)
qed

theorem all_sent_schedules_deletion_witness:
  "send_files_to_user (initial_state 1) (\<lambda>idx. Some (500 + int idx)) 0 7
     (bundle_of [photo ''F1'', photo ''F2''] None) ''abc'' =
     ((initial_state 1)\<lparr>downloads := [\<lparr>file_code = ''abc'', user_id = 7, downloaded_at = 0\<rparr>]\<rparr>,
      [SendMedia ''photo'' 7 ''F1'' (Some (NoticeOnly 5)) 500,
       SendMedia ''photo'' 7 ''F2'' (Some (NoticeOnly 5)) 501,
       CreateTask 7 [500, 501] 5 ''abc''])"
proof -
  let ?fg = "bundle_of [photo ''F1'', photo ''F2''] None"
  have "\<exists>sent. send_files_to_user (initial_state 1) (\<lambda>idx. Some (500 + int idx)) 0 7 ?fg ''abc'' =
           ((initial_state 1)\<lparr>downloads := downloads (initial_state 1) @
                [\<lparr>file_code = ''abc'', user_id = 7, downloaded_at = 0\<rparr>]\<rparr>,
            sent @ [CreateTask 7 (map (\<lambda>i. the (Some (500 + int i))) [0 ..< length (group_files ?fg)])
                      (bundle_seconds ?fg) ''abc'']) \<and>
           length sent = length (group_files ?fg) \<and> list_all (delivers_to 7) sent"
    by (rule all_sent_schedules_deletion) (simp_all add: bundle_of_def is_media_def photo_def)
  then have "downloads (fst (send_files_to_user (initial_state 1) (\<lambda>idx. Some (500 + int idx)) 0 7
      ?fg ''abc'')) = [\<lparr>file_code = ''abc'', user_id = 7, downloaded_at = 0\<rparr>]"
    by (auto simp add: initial_state_def)
  then show ?thesis
    by (simp add: send_files_to_user_def bundle_of_def photo_def bundle_seconds_def caption_arg_def
        full_caption_def truthy_def initial_state_def)
qed

text \<open>
  When the send of the first item raises, nothing was sent: the user gets the error
  message, no deletion task is created and no download is recorded.
\<close>

theorem first_send_raises_reports_error:
  assumes "group_files fg = f # fs" and "is_media f" and "tr 0 = None"
  shows "send_files_to_user s tr now user fg code = (s, [SendMessage user SendFailed])"
  using assms by (simp add: send_files_to_user_def is_media_def)

theorem first_send_raises_reports_error_witness:
  "send_files_to_user (initial_state 1) (\<lambda>idx. None) 0 7 (bundle_of [photo ''F1''] None) ''abc'' =
     (initial_state 1, [SendMessage 7 SendFailed])"
  by (rule first_send_raises_reports_error [where f = "photo ''F1''" and fs = "[]"])
     (simp_all add: bundle_of_def is_media_def photo_def)

text \<open>
  A request that comes at least 2 seconds after the recorded last one, with no lockout
  pending, is allowed and puts the count back to 1, whatever the count and an expired
  lockout were.
\<close>

theorem window_reset:
  assumes "sc user = Some spam" and "last_request spam + 2 * second \<le> now"
    and "case blocked_until spam of None \<Rightarrow> True | Some until \<Rightarrow> until \<le> now"
  shows "spam_gate sc user now =
           (sc(user \<mapsto> \<lparr>request_count = 1, last_request = now, blocked_until = None\<rparr>), Allowed)"
  using assms
  by (auto simp add: spam_gate_def is_temp_blocked_def check_spam_def Let_def split: option.splits)

theorem window_reset_witness:
  "spam_gate [7 \<mapsto> \<lparr>request_count = 5, last_request = 2000000, blocked_until = Some 12000000\<rparr>]
     7 12000000 =
   ([7 \<mapsto> \<lparr>request_count = 1, last_request = 12000000, blocked_until = None\<rparr>], Allowed)"
proof -
  have "spam_gate [7 \<mapsto> \<lparr>request_count = 5, last_request = 2000000,
                          blocked_until = Some (12000000::int)\<rparr>] 7 12000000 =
     ([7 \<mapsto> \<lparr>request_count = 5, last_request = 2000000, blocked_until = Some (12000000::int)\<rparr>]
        (7 \<mapsto> \<lparr>request_count = 1, last_request = 12000000, blocked_until = None\<rparr>), Allowed)"
    by (rule window_reset [where spam = "\<lparr>request_count = 5, last_request = 2000000,
                                           blocked_until = Some 12000000\<rparr>"])
       (simp_all add: second_def)
  then show ?thesis by simp
qed

end
